theory Spec2Isabelle
  imports Main "HOL-Library.Sublist"
begin

section \<open>Markdown asset pipeline of leaf-api: export and image normalisation\<close>

text \<open>
  The development embeds the two consumers of the Markdown image pipeline of
  \<^verbatim>\<open>pkg/markdown\<close>: the exporter (\<^verbatim>\<open>ArticleExporter\<close>) and the
  normaliser (\<^verbatim>\<open>ImageProcessor\<close>).

  Go strings are byte sequences; they are modelled as \<^typ>\<open>string\<close>, one
  \<^typ>\<open>char\<close> per byte. The two regular expressions of the source only
  mention ASCII characters, and a byte of a multi-byte UTF-8 sequence is never an
  ASCII byte, so matching byte by byte agrees with Go's matching rune by rune
  on UTF-8 text. Document bodies are taken to be UTF-8 text, as the document
  store delivers them.
\<close>

subsection \<open>Functions of the Go library \<^verbatim>\<open>strings\<close>\<close>

definition HasPrefix :: "string \<Rightarrow> string \<Rightarrow> bool" where
  "HasPrefix s p = (take (length p) s = p)"

fun Contains :: "string \<Rightarrow> string \<Rightarrow> bool" where
  "Contains [] sub = (sub = [])"
| "Contains (c # s) sub = (HasPrefix (c # s) sub \<or> Contains s sub)"

definition ContainsAny :: "string \<Rightarrow> string \<Rightarrow> bool" where
  "ContainsAny s chars = (\<exists>c \<in> set s. c \<in> set chars)"

text \<open>
  \<^verbatim>\<open>strings.ReplaceAll(s, old, new)\<close> replaces the non-overlapping
  occurrences of \<open>old\<close>, leftmost first. The source never calls it with an empty
  \<open>old\<close> (every pattern starts with \<^verbatim>\<open>![\<close>, \<^verbatim>\<open>__\<close>, a quote, a space
  or a slash); for an empty \<open>old\<close> the model returns \<open>s\<close>.
\<close>

function ReplaceAll :: "string \<Rightarrow> string \<Rightarrow> string \<Rightarrow> string" where
  "ReplaceAll s old new =
     (if old = [] then s
      else if s = [] then []
      else if HasPrefix s old then new @ ReplaceAll (drop (length old) s) old new
      else hd s # ReplaceAll (tl s) old new)"
  by pat_completeness auto
termination
  by (relation "measure (\<lambda>(s, old, new). length s)") auto

declare ReplaceAll.simps [simp del]

text \<open>\<^verbatim>\<open>parts := strings.Split(s, sep); parts[len(parts)-1]\<close> for a one-byte separator.\<close>

definition last_part :: "char \<Rightarrow> string \<Rightarrow> string" where
  "last_part sep s = rev (takeWhile (\<lambda>c. c \<noteq> sep) (rev s))"

text \<open>\<^verbatim>\<open>strings.Split(s, sep)[0]\<close> for a one-byte separator.\<close>

definition first_part :: "char \<Rightarrow> string \<Rightarrow> string" where
  "first_part sep s = takeWhile (\<lambda>c. c \<noteq> sep) s"

text \<open>Decimal printing, \<^verbatim>\<open>%d\<close> of \<^verbatim>\<open>fmt.Sprintf\<close>.\<close>

definition digit_char :: "nat \<Rightarrow> char" where
  "digit_char d = char_of (48 + d)"

fun show_nat :: "nat \<Rightarrow> string" where
  "show_nat n = (if n < 10 then [digit_char n] else show_nat (n div 10) @ [digit_char (n mod 10)])"

declare show_nat.simps [simp del]

definition show_int :: "int \<Rightarrow> string" where
  "show_int i = (if i < 0 then CHR ''-'' # show_nat (nat (- i)) else show_nat (nat i))"

subsection \<open>The image-link regular expression\<close>

text \<open>
  \<^verbatim>\<open>imgRegex = !\[([^\]]*)\]\(([^)]+)\)\<close>. At a given start position the match
  is unique: the first class cannot cross a \<^verbatim>\<open>]\<close> and must be followed by one,
  the second cannot cross a \<^verbatim>\<open>)\<close> and must be followed by one.
  \<open>match_img_at s\<close> is the match that starts at the first byte of \<open>s\<close>: the two
  groups and the text after the match.
\<close>

definition match_img_at :: "string \<Rightarrow> (string \<times> string \<times> string) option" where
  "match_img_at s =
     (if HasPrefix s ''!['' then
        let t = drop 2 s;
            alt = takeWhile (\<lambda>c. c \<noteq> CHR '']'') t;
            r = dropWhile (\<lambda>c. c \<noteq> CHR '']'') t
        in if HasPrefix r '']('' then
             let t2 = drop 2 r;
                 url = takeWhile (\<lambda>c. c \<noteq> CHR '')'') t2;
                 r2 = dropWhile (\<lambda>c. c \<noteq> CHR '')'') t2
             in if url \<noteq> [] \<and> HasPrefix r2 '')'' then Some (alt, url, drop 1 r2) else None
           else None
      else None)"

lemma match_img_at_shorter:
  "match_img_at s = Some (alt, url, rest) \<Longrightarrow> length rest < length s"
proof -
  assume m: "match_img_at s = Some (alt, url, rest)"
  define t where "t = drop 2 s"
  define r where "r = dropWhile (\<lambda>c. c \<noteq> CHR '']'') t"
  define r2 where "r2 = dropWhile (\<lambda>c. c \<noteq> CHR '')'') (drop 2 r)"
  from m have p: "HasPrefix s ''!['' " and rest: "rest = drop 1 r2"
    by (auto simp: match_img_at_def Let_def t_def r_def r2_def split: if_splits)
  have "length r2 \<le> length (drop 2 r)"
    unfolding r2_def by (rule length_dropWhile_le)
  moreover have "length r \<le> length t"
    unfolding r_def by (rule length_dropWhile_le)
  moreover from p have "length t < length s"
    by (cases s) (auto simp: HasPrefix_def t_def)
  ultimately show ?thesis using rest by simp
qed

text \<open>
  \<^verbatim>\<open>imgRegex.FindAllStringSubmatch(s, -1)\<close>: the successive leftmost matches,
  the search resuming after each match. Each match is kept as (group 1, group 2).
\<close>

function FindAllStringSubmatch :: "string \<Rightarrow> (string \<times> string) list" where
  "FindAllStringSubmatch s =
     (case match_img_at s of
        Some (alt, url, rest) \<Rightarrow> (alt, url) # FindAllStringSubmatch rest
      | None \<Rightarrow> (if s = [] then [] else FindAllStringSubmatch (tl s)))"
  by pat_completeness auto
termination
  by (relation "measure length") (auto dest: match_img_at_shorter)

declare FindAllStringSubmatch.simps [simp del]

text \<open>
  \<^verbatim>\<open>oldPattern = !\[[^\]]*\]\(\<close> + \<^verbatim>\<open>regexp.QuoteMeta(originalURL)\<close> + \<^verbatim>\<open>\)\<close>:
  any alt text, then the URL taken literally. \<open>match_url_at u s\<close> is the text after
  the match that starts at the first byte of \<open>s\<close>.
\<close>

definition match_url_at :: "string \<Rightarrow> string \<Rightarrow> string option" where
  "match_url_at u s =
     (if HasPrefix s ''!['' then
        let r = dropWhile (\<lambda>c. c \<noteq> CHR '']'') (drop 2 s)
        in if HasPrefix r (''](''  @ u @ '')'') then Some (drop (length u + 3) r) else None
      else None)"

lemma match_url_at_shorter:
  "match_url_at u s = Some rest \<Longrightarrow> length rest < length s"
proof -
  assume m: "match_url_at u s = Some rest"
  define r where "r = dropWhile (\<lambda>c. c \<noteq> CHR '']'') (drop 2 s)"
  from m have p: "HasPrefix s ''!['' " and rest: "rest = drop (length u + 3) r"
    by (auto simp: match_url_at_def Let_def r_def split: if_splits)
  have "length r \<le> length (drop 2 s)"
    unfolding r_def by (rule length_dropWhile_le)
  moreover from p have "length (drop 2 s) < length s"
    by (cases s) (auto simp: HasPrefix_def)
  ultimately show ?thesis using rest by simp
qed

text \<open>
  \<^verbatim>\<open>oldPattern.ReplaceAllString(s, repl)\<close> for a replacement without \<^verbatim>\<open>$\<close>
  (the placeholders have none): every leftmost non-overlapping match becomes \<open>repl\<close>.
\<close>

function ReplaceAllString :: "string \<Rightarrow> string \<Rightarrow> string \<Rightarrow> string" where
  "ReplaceAllString u s repl =
     (case match_url_at u s of
        Some rest \<Rightarrow> repl @ ReplaceAllString u rest repl
      | None \<Rightarrow> (if s = [] then [] else hd s # ReplaceAllString u (tl s) repl))"
  by pat_completeness auto
termination
  by (relation "measure (\<lambda>(u, s, repl). length s)") (auto dest: match_url_at_shorter)

declare ReplaceAllString.simps [simp del]

subsection \<open>The scanner: \<^verbatim>\<open>ArticleExporter.extractImages\<close>\<close>

record ImageInfo =
  Alt :: string
  OriginalURL :: string
  Type :: string
  Placeholder :: string

definition placeholder :: "nat \<Rightarrow> string" where
  "placeholder i = ''__IMG_PLACEHOLDER_'' @ show_nat i @ ''__''"

text \<open>
  The loop over the matches, with its three variables: the text being rewritten, the
  references collected so far and the set \<^verbatim>\<open>seen\<close>. \<open>i\<close> is the index of the
  match in the list of all matches. (The test \<^verbatim>\<open>len(match) < 3\<close> never holds:
  the expression has two groups.)
\<close>

fun extractImages_loop ::
  "nat \<Rightarrow> (string \<times> string) list \<Rightarrow> string \<Rightarrow> ImageInfo list \<Rightarrow> string set
    \<Rightarrow> string \<times> ImageInfo list" where
  "extractImages_loop i [] markdown imageInfos seen = (markdown, imageInfos)"
| "extractImages_loop i ((alt, originalURL) # matches) markdown imageInfos seen =
     (if HasPrefix originalURL ''./'' \<or> HasPrefix originalURL ''../''
      then extractImages_loop (Suc i) matches markdown imageInfos seen
      else if \<not> HasPrefix originalURL ''/uploads/'' \<and> \<not> HasPrefix originalURL ''http://''
              \<and> \<not> HasPrefix originalURL ''https://''
      then extractImages_loop (Suc i) matches markdown imageInfos seen
      else if originalURL \<in> seen
      then extractImages_loop (Suc i) matches markdown imageInfos seen
      else extractImages_loop (Suc i) matches
             (ReplaceAllString originalURL markdown (placeholder i))
             (imageInfos @
               [\<lparr>Alt = alt, OriginalURL = originalURL,
                 Type = (if HasPrefix originalURL ''/uploads/'' then ''local'' else ''remote''),
                 Placeholder = placeholder i\<rparr>])
             (insert originalURL seen))"

definition extractImages :: "string \<Rightarrow> string \<times> ImageInfo list" where
  "extractImages markdown =
     extractImages_loop 0 (FindAllStringSubmatch markdown) markdown [] {}"

subsection \<open>The outside world\<close>

text \<open>
  Network, file system, clock, identifier generator and durable storage are not part of
  the program. They are a parameter \<open>env\<close>: each oracle answers as a function of the
  request and of \<open>tick\<close>, the number of effects performed so far, so that the same
  request may be answered differently at different moments. The \<open>world\<close> carries
  the tick and the log of what the program asked for.
\<close>

datatype http_reply =
    TransportError
  | Response nat string "string option"
      \<comment> \<open>status code, \<^verbatim>\<open>Content-Type\<close> header, body (\<open>None\<close>: reading the body fails)\<close>

record env =
  new_request_ok :: "string \<Rightarrow> bool"            \<comment> \<open>\<^verbatim>\<open>http.NewRequest\<close> accepts the URL\<close>
  client_do :: "nat \<Rightarrow> string \<Rightarrow> http_reply"     \<comment> \<open>\<^verbatim>\<open>client.Do\<close>\<close>
  read_file :: "nat \<Rightarrow> string \<Rightarrow> string option" \<comment> \<open>\<^verbatim>\<open>os.ReadFile\<close>\<close>
  unix_nano :: "nat \<Rightarrow> int"                      \<comment> \<open>\<^verbatim>\<open>time.Now().UnixNano()\<close>\<close>
  date_path :: "nat \<Rightarrow> string"                   \<comment> \<open>\<^verbatim>\<open>time.Now().Format("2006/01/02")\<close>\<close>
  new_uuid :: "nat \<Rightarrow> string"                    \<comment> \<open>\<^verbatim>\<open>uuid.New().String()\<close>\<close>
  upload_bytes :: "nat \<Rightarrow> string \<Rightarrow> string \<Rightarrow> string option"
      \<comment> \<open>\<^verbatim>\<open>oss.UploadBytes(data, filename)\<close>: the URL of the stored object, or failure\<close>

record world =
  tick :: nat
  http_log :: "string list"     \<comment> \<open>the URLs handed to \<^verbatim>\<open>client.Do\<close>, oldest first\<close>
  read_log :: "string list"     \<comment> \<open>the paths handed to \<^verbatim>\<open>os.ReadFile\<close>\<close>
  upload_log :: "string list"   \<comment> \<open>the object names handed to \<^verbatim>\<open>oss.UploadBytes\<close>\<close>
  fetch_log :: "(string \<times> bool) list"
      \<comment> \<open>the export's fetches: the original URL, and whether the asset entered the archive\<close>

definition world0 :: world where
  "world0 = \<lparr>tick = 0, http_log = [], read_log = [], upload_log = [], fetch_log = []\<rparr>"

datatype error =
    RequestError
  | TransportFailure
  | HttpStatus nat
  | ReadBodyError
  | LocalReadError
  | ProxyFailed error
  | UploadFailed
  | ZipNameTooLong
  | ZipWriteToDirectory

definition hostile :: "string \<Rightarrow> bool" where
  "hostile url = (Contains url ''cdn.nlark.com'' \<or> Contains url ''yuque.com'')"

definition proxyBase :: string where
  "proxyBase = ''https://images.weserv.nl/?url=''"

subsection \<open>File names: \<^verbatim>\<open>extractFilename\<close>, \<^verbatim>\<open>filepath.Base\<close>, \<^verbatim>\<open>filepath.Ext\<close>\<close>

definition getExtensionFromContentType :: "string \<Rightarrow> string" where
  "getExtensionFromContentType contentType =
     (if Contains contentType ''image/jpeg'' then ''.jpg''
      else if Contains contentType ''image/png'' then ''.png''
      else if Contains contentType ''image/gif'' then ''.gif''
      else if Contains contentType ''image/webp'' then ''.webp''
      else ''.jpg'')"

definition extractFilename :: "env \<Rightarrow> world \<Rightarrow> string \<Rightarrow> string \<Rightarrow> string \<times> world" where
  "extractFilename e w url contentType =
     (let filename = first_part (CHR ''?'') (last_part (CHR ''/'') url)
      in if \<not> Contains filename ''.''
         then (show_int (unix_nano e (tick w)) @ getExtensionFromContentType contentType,
               w\<lparr>tick := Suc (tick w)\<rparr>)
         else (filename, w))"

definition Base :: "string \<Rightarrow> string" where
  "Base path =
     (if path = [] then ''.''
      else let p = rev (dropWhile (\<lambda>c. c = CHR ''/'') (rev path));
               el = last_part (CHR ''/'') p
           in if el = [] then ''/'' else el)"

definition Ext :: "string \<Rightarrow> string" where
  "Ext path =
     (let el = last_part (CHR ''/'') path
      in if CHR ''.'' \<in> set el then CHR ''.'' # last_part (CHR ''.'') el else [])"

subsection \<open>The export path: fetching\<close>

text \<open>
  \<^verbatim>\<open>ArticleExporter.downloadImage\<close> calls itself on the proxied URL when
  \<^verbatim>\<open>client.Do\<close> fails; nothing bounds the number of calls, so the function is
  partial: \<open>None\<close> is a call that does not return.
\<close>

partial_function (option) downloadImage ::
  "env \<Rightarrow> world \<Rightarrow> string \<Rightarrow> ((error + string \<times> string) \<times> world) option" where
  "downloadImage e w url =
     (if \<not> new_request_ok e url then Some (Inl RequestError, w)
      else
        let w1 = w\<lparr>tick := Suc (tick w), http_log := http_log w @ [url]\<rparr>
        in case client_do e (tick w) url of
             TransportError \<Rightarrow>
               if Contains url ''cdn.nlark.com'' \<or> Contains url ''yuque.com''
               then downloadImage e w1 (''https://images.weserv.nl/?url='' @ url)
               else Some (Inl TransportFailure, w1)
           | Response status contentType body \<Rightarrow>
               if status \<noteq> 200 then Some (Inl (HttpStatus status), w1)
               else (case body of
                       None \<Rightarrow> Some (Inl ReadBodyError, w1)
                     | Some imageData \<Rightarrow>
                         (case extractFilename e w1 url contentType of
                            (filename, w2) \<Rightarrow> Some (Inr (imageData, filename), w2))))"

definition readLocalImage ::
  "env \<Rightarrow> world \<Rightarrow> string \<Rightarrow> (error + string \<times> string) \<times> world" where
  "readLocalImage e w urlPath =
     (let localPath = ''.'' @ urlPath;
          w1 = w\<lparr>tick := Suc (tick w), read_log := read_log w @ [localPath]\<rparr>
      in case read_file e (tick w) localPath of
           None \<Rightarrow> (Inl LocalReadError, w1)
         | Some imageData \<Rightarrow> (Inr (imageData, Base urlPath), w1))"

subsection \<open>The archive\<close>

text \<open>
  The archive under construction is the list of its entries, name and content, in the
  order of creation. \<^verbatim>\<open>zip.Writer.Create\<close> refuses a name longer than 65535
  bytes (the length field of a ZIP header has 16 bits), and a name that ends in a slash
  is a directory, to which no content can be written. The writer writes to a buffer in
  memory, so nothing else fails, \<^verbatim>\<open>zipWriter.Close\<close> included.
\<close>

type_synonym zip = "(string \<times> string) list"

definition addFileToZip :: "zip \<Rightarrow> string \<Rightarrow> string \<Rightarrow> error + zip" where
  "addFileToZip zipWriter filename data =
     (if length filename > 65535 then Inl ZipNameTooLong
      else if filename \<noteq> [] \<and> last filename = CHR ''/'' \<and> data \<noteq> [] then Inl ZipWriteToDirectory
      else Inr (zipWriter @ [(filename, data)]))"

subsection \<open>Documents and front matter\<close>

text \<open>
  The fields of \<^verbatim>\<open>po.Article\<close> that the exporter reads. The two times are kept
  as already formatted by \<^verbatim>\<open>Format("2006-01-02 15:04:05")\<close>, the tags as the list
  of their names.
\<close>

record Article =
  ID :: nat
  Title :: string
  AuthorNickname :: string
  CategoryName :: string
  CreatedAt :: string
  UpdatedAt :: string
  Status :: int
  Tags :: "string list"
  ContentMarkdown :: string

definition escapeYAMLValue :: "string \<Rightarrow> string" where
  "escapeYAMLValue v =
     (if ContainsAny v [CHR '':'', CHR ''#'', CHR 0x22, CHR 0x27]
      then [CHR 0x22] @ ReplaceAll v [CHR 0x22] [CHR 0x5C, CHR 0x22] @ [CHR 0x22]
      else v)"

fun join_tags :: "string list \<Rightarrow> string" where
  "join_tags [] = []"
| "join_tags [t] = escapeYAMLValue t"
| "join_tags (t # ts) = escapeYAMLValue t @ '', '' @ join_tags ts"

definition generateMarkdownWithFrontMatter :: "Article \<Rightarrow> string" where
  "generateMarkdownWithFrontMatter article =
     ''---'' @ [CHR 0x0A] @
     ''title: '' @ escapeYAMLValue (Title article) @ [CHR 0x0A] @
     ''author: '' @ escapeYAMLValue (AuthorNickname article) @ [CHR 0x0A] @
     ''category: '' @ escapeYAMLValue (CategoryName article) @ [CHR 0x0A] @
     ''created_at: '' @ CreatedAt article @ [CHR 0x0A] @
     ''updated_at: '' @ UpdatedAt article @ [CHR 0x0A] @
     ''status: '' @ show_int (Status article) @ [CHR 0x0A] @
     (if Tags article \<noteq> [] then ''tags: ['' @ join_tags (Tags article) @ '']'' @ [CHR 0x0A] else []) @
     ''---'' @ [CHR 0x0A, CHR 0x0A] @
     ContentMarkdown article"

definition title_char :: "char \<Rightarrow> bool" where
  "title_char c =
     (let n = (of_char c :: nat)
      in (97 \<le> n \<and> n \<le> 122) \<or> (65 \<le> n \<and> n \<le> 90) \<or> (48 \<le> n \<and> n \<le> 57) \<or> c = CHR ''-'')"

definition generateFilename :: "Article \<Rightarrow> string" where
  "generateFilename article =
     (let t1 = ReplaceAll (Title article) '' '' ''-'';
          t2 = ReplaceAll t1 ''/'' ''-'';
          t3 = ReplaceAll t2 [CHR 0x5C] ''-'';
          t4 = filter title_char t3;
          title = (if length t4 > 50 then take 50 t4 else t4)
      in show_nat (ID article) @ ''-'' @ title @ ''.md'')"

subsection \<open>The export: \<^verbatim>\<open>ArticleExporter.ExportToZip\<close>\<close>

definition new_link :: "string \<Rightarrow> string \<Rightarrow> string" where
  "new_link alt filename = ''!['' @ alt @ ''](./images/'' @ filename @ '')''"

definition original_link :: "string \<Rightarrow> string \<Rightarrow> string" where
  "original_link alt url = ''!['' @ alt @ '']('' @ url @ '')''"

definition fetch_image ::
  "env \<Rightarrow> world \<Rightarrow> ImageInfo \<Rightarrow> ((error + string \<times> string) \<times> world) option" where
  "fetch_image e w imgInfo =
     (if Type imgInfo = ''local'' then Some (readLocalImage e w (OriginalURL imgInfo))
      else downloadImage e w (OriginalURL imgInfo))"

text \<open>
  \<open>note_fetch\<close> is an observation added to the model, not an action of the program: it
  records, when the outcome of a fetch is known, the original URL that was fetched and
  whether the asset was stored in the archive and entered into \<^verbatim>\<open>downloadedImages\<close>.
\<close>

definition note_fetch :: "string \<Rightarrow> bool \<Rightarrow> world \<Rightarrow> world" where
  "note_fetch url stored w = w\<lparr>fetch_log := fetch_log w @ [(url, stored)]\<rparr>"

text \<open>
  The inner loop, over the references of one document. Its variables: the text
  \<^verbatim>\<open>processedMarkdown\<close>, the archive, the map \<^verbatim>\<open>downloadedImages\<close> and the world.
\<close>

fun export_images ::
  "env \<Rightarrow> ImageInfo list \<Rightarrow> string \<Rightarrow> zip \<Rightarrow> (string \<rightharpoonup> string) \<Rightarrow> world
    \<Rightarrow> (string \<times> zip \<times> (string \<rightharpoonup> string) \<times> world) option" where
  "export_images e [] processedMarkdown zipWriter downloadedImages w =
     Some (processedMarkdown, zipWriter, downloadedImages, w)"
| "export_images e (imgInfo # imageInfos) processedMarkdown zipWriter downloadedImages w =
     (case downloadedImages (OriginalURL imgInfo) of
        Some filename \<Rightarrow>
          export_images e imageInfos
            (ReplaceAll processedMarkdown (Placeholder imgInfo) (new_link (Alt imgInfo) filename))
            zipWriter downloadedImages w
      | None \<Rightarrow>
          (case fetch_image e w imgInfo of
             None \<Rightarrow> None
           | Some (Inl err, w1) \<Rightarrow>
               export_images e imageInfos
                 (ReplaceAll processedMarkdown (Placeholder imgInfo)
                    (original_link (Alt imgInfo) (OriginalURL imgInfo)))
                 zipWriter downloadedImages (note_fetch (OriginalURL imgInfo) False w1)
           | Some (Inr (imageData, filename), w1) \<Rightarrow>
               (case addFileToZip zipWriter (''images/'' @ filename) imageData of
                  Inl err \<Rightarrow>
                    export_images e imageInfos processedMarkdown zipWriter downloadedImages
                      (note_fetch (OriginalURL imgInfo) False w1)
                | Inr zipWriter1 \<Rightarrow>
                    export_images e imageInfos
                      (ReplaceAll processedMarkdown (Placeholder imgInfo)
                         (new_link (Alt imgInfo) filename))
                      zipWriter1 (downloadedImages(OriginalURL imgInfo \<mapsto> filename))
                      (note_fetch (OriginalURL imgInfo) True w1))))"

text \<open>The outer loop, over the documents.\<close>

fun export_articles ::
  "env \<Rightarrow> Article list \<Rightarrow> zip \<Rightarrow> (string \<rightharpoonup> string) \<Rightarrow> world
    \<Rightarrow> (zip \<times> (string \<rightharpoonup> string) \<times> world) option" where
  "export_articles e [] zipWriter downloadedImages w = Some (zipWriter, downloadedImages, w)"
| "export_articles e (article # articles) zipWriter downloadedImages w =
     (case extractImages (generateMarkdownWithFrontMatter article) of
        (processedMarkdown, imageInfos) \<Rightarrow>
          (case export_images e imageInfos processedMarkdown zipWriter downloadedImages w of
             None \<Rightarrow> None
           | Some (processedMarkdown1, zipWriter1, downloadedImages1, w1) \<Rightarrow>
               (case addFileToZip zipWriter1 (generateFilename article) processedMarkdown1 of
                  Inl err \<Rightarrow> export_articles e articles zipWriter1 downloadedImages1 w1
                | Inr zipWriter2 \<Rightarrow> export_articles e articles zipWriter2 downloadedImages1 w1)))"

text \<open>
  The result is the archive as the list of its entries, with the world after the run.
\<close>

definition ExportToZip :: "env \<Rightarrow> world \<Rightarrow> Article list \<Rightarrow> (zip \<times> world) option" where
  "ExportToZip e w articles =
     (case export_articles e articles [] Map.empty w of
        None \<Rightarrow> None
      | Some (zipWriter, downloadedImages, w1) \<Rightarrow> Some (zipWriter, w1))"

subsection \<open>The normaliser: \<^verbatim>\<open>ImageProcessor\<close>\<close>

record ImageProcessor =
  folder :: string

definition NewImageProcessor :: "string \<Rightarrow> string \<Rightarrow> ImageProcessor" where
  "NewImageProcessor uploadDir baseURL = \<lparr>folder = ''articles''\<rparr>"

definition tryDownload :: "env \<Rightarrow> world \<Rightarrow> string \<Rightarrow> (error + string \<times> string) \<times> world" where
  "tryDownload e w url =
     (if \<not> new_request_ok e url then (Inl RequestError, w)
      else
        let w1 = w\<lparr>tick := Suc (tick w), http_log := http_log w @ [url]\<rparr>
        in case client_do e (tick w) url of
             TransportError \<Rightarrow> (Inl TransportFailure, w1)
           | Response status contentType body \<Rightarrow>
               if status \<noteq> 200 then (Inl (HttpStatus status), w1)
               else (case body of
                       None \<Rightarrow> (Inl ReadBodyError, w1)
                     | Some imgData \<Rightarrow> (Inr (imgData, contentType), w1)))"

text \<open>\<^verbatim>\<open>strings.ToLower\<close> on the ASCII letters.\<close>

definition to_lower :: "char \<Rightarrow> char" where
  "to_lower c =
     (let n = (of_char c :: nat) in if 65 \<le> n \<and> n \<le> 90 then char_of (n + 32) else c)"

definition getExtByContentType :: "string \<Rightarrow> string" where
  "getExtByContentType contentType =
     (let ct = map to_lower contentType
      in if Contains ct ''jpeg'' \<or> Contains ct ''jpg'' then ''.jpg''
         else if Contains ct ''png'' then ''.png''
         else if Contains ct ''gif'' then ''.gif''
         else if Contains ct ''webp'' then ''.webp''
         else if Contains ct ''svg'' then ''.svg''
         else ''.jpg'')"

text \<open>
  \<^verbatim>\<open>downloadAndUploadImage\<close>: the direct download, one download through the proxy
  when it fails for a hostile host, then the upload. The proxy is tried by a second call
  of \<^verbatim>\<open>tryDownload\<close>, not by a call of the function itself.
\<close>

definition downloadAndUploadImage ::
  "ImageProcessor \<Rightarrow> env \<Rightarrow> world \<Rightarrow> string \<Rightarrow> (error + string) \<times> world" where
  "downloadAndUploadImage p e w url =
     (case (case tryDownload e w url of
              (Inl err, w1) \<Rightarrow>
                if Contains url ''cdn.nlark.com'' \<or> Contains url ''yuque.com''
                then (case tryDownload e w1 (''https://images.weserv.nl/?url='' @ url) of
                        (Inl err2, w2) \<Rightarrow> (Inl (ProxyFailed err2), w2)
                      | (Inr downloaded, w2) \<Rightarrow> (Inr downloaded, w2))
                else (Inl err, w1)
            | (Inr downloaded, w1) \<Rightarrow> (Inr downloaded, w1)) of
        (Inl err, w2) \<Rightarrow> (Inl err, w2)
      | (Inr (imgData, contentType), w2) \<Rightarrow>
          let ext0 = Ext url;
              ext = (if ext0 = [] \<or> length ext0 > 5 then getExtByContentType contentType else ext0);
              filename = folder p @ ''/'' @ date_path e (tick w2) @ ''/'' @ new_uuid e (tick w2) @ ext;
              w3 = w2\<lparr>tick := Suc (tick w2), upload_log := upload_log w2 @ [filename]\<rparr>
          in case upload_bytes e (tick w2) imgData filename of
               None \<Rightarrow> (Inl UploadFailed, w3)
             | Some uploadedURL \<Rightarrow> (Inr uploadedURL, w3))"

definition already_processed :: "string \<Rightarrow> bool" where
  "already_processed originalURL =
     (HasPrefix originalURL ''/uploads/'' \<or> Contains originalURL ''oss-cn-''
      \<or> Contains originalURL ''aliyuncs.com'')"

text \<open>The loop over the matches; its variables are the text and the world.\<close>

fun process_loop ::
  "ImageProcessor \<Rightarrow> env \<Rightarrow> (string \<times> string) list \<Rightarrow> string \<Rightarrow> world \<Rightarrow> string \<times> world" where
  "process_loop p e [] content w = (content, w)"
| "process_loop p e ((alt, originalURL) # matches) content w =
     (if already_processed originalURL then process_loop p e matches content w
      else case downloadAndUploadImage p e w originalURL of
             (Inl err, w1) \<Rightarrow> process_loop p e matches content w1
           | (Inr uploadedURL, w1) \<Rightarrow>
               process_loop p e matches
                 (ReplaceAll content (original_link alt originalURL) (original_link alt uploadedURL))
                 w1)"

text \<open>
  The result is Go's pair of the text and the error (\<open>None\<close> is \<^verbatim>\<open>nil\<close>), with the
  world after the call.
\<close>

definition ProcessMarkdownImages ::
  "ImageProcessor \<Rightarrow> env \<Rightarrow> world \<Rightarrow> string \<Rightarrow> (string \<times> error option) \<times> world" where
  "ProcessMarkdownImages p e w content =
     (let matches = FindAllStringSubmatch content
      in if matches = [] then ((content, None), w)
         else case process_loop p e matches content w of
                (content1, w1) \<Rightarrow> ((content1, None), w1))"

subsection \<open>Concrete worlds and documents\<close>

text \<open>A world in which every URL is accepted and the network answers by a fixed table.\<close>

definition static_env :: "(string \<Rightarrow> http_reply) \<Rightarrow> env" where
  "static_env net =
     \<lparr>new_request_ok = (\<lambda>url. True), client_do = (\<lambda>n. net),
      read_file = (\<lambda>n path. None), unix_nano = (\<lambda>n. 1700000000000000000 + int n),
      date_path = (\<lambda>n. ''2025/11/28''), new_uuid = (\<lambda>n. ''id'' @ show_nat n),
      upload_bytes = (\<lambda>n data name. Some (''https://leaf.oss-cn-hangzhou.aliyuncs.com/'' @ name))\<rparr>"

definition net_two_hosts :: "string \<Rightarrow> http_reply" where
  "net_two_hosts url =
     (if url = ''https://a.example/p/x.png'' then Response 200 ''image/png'' (Some ''AAA'')
      else if url = ''https://b.example/q/x.png?v=2'' then Response 200 ''image/png'' (Some ''BBB'')
      else Response 404 [] (Some []))"

definition front_matter_7 :: string where
  "front_matter_7 =
     ''---'' @ [CHR 0x0A] @ ''title: Two hosts'' @ [CHR 0x0A] @ ''author: ann'' @ [CHR 0x0A] @
     ''category: notes'' @ [CHR 0x0A] @ ''created_at: 2025-12-10 08:00:00'' @ [CHR 0x0A] @
     ''updated_at: 2025-12-10 09:30:00'' @ [CHR 0x0A] @ ''status: 1'' @ [CHR 0x0A] @
     ''---'' @ [CHR 0x0A, CHR 0x0A]"

definition article_two_hosts :: Article where
  "article_two_hosts =
     \<lparr>ID = 7, Title = ''Two hosts'', AuthorNickname = ''ann'', CategoryName = ''notes'',
      CreatedAt = ''2025-12-10 08:00:00'', UpdatedAt = ''2025-12-10 09:30:00'', Status = 1,
      Tags = [],
      ContentMarkdown = ''![a](https://a.example/p/x.png) ![b](https://b.example/q/x.png?v=2)''\<rparr>"

definition env_down :: env where
  "env_down = static_env (\<lambda>url. TransportError)"

definition env_flaky :: env where
  "env_flaky =
     (static_env (\<lambda>url. TransportError))
       \<lparr>client_do := (\<lambda>n url. if n < 2 then TransportError
                               else Response 200 ''image/png'' (Some ''PNG''))\<rparr>"

definition net_hotlink :: "string \<Rightarrow> http_reply" where
  "net_hotlink url =
     (if url = ''https://cdn.nlark.com/x.png'' then Response 403 ''text/html'' (Some ''Forbidden'')
      else if url = ''https://images.weserv.nl/?url=https://cdn.nlark.com/x.png''
      then Response 200 ''image/png'' (Some ''PNG'')
      else Response 404 [] (Some []))"

text \<open>A document with fixed metadata, and the front matter that the export generates for it.\<close>

definition plain_article :: "nat \<Rightarrow> string \<Rightarrow> Article" where
  "plain_article n body =
     \<lparr>ID = n, Title = ''Note'', AuthorNickname = ''bo'', CategoryName = ''web'',
      CreatedAt = ''2025-11-28 10:00:00'', UpdatedAt = ''2025-11-28 10:00:00'', Status = 1,
      Tags = [], ContentMarkdown = body\<rparr>"

definition plain_front_matter :: string where
  "plain_front_matter =
     ''---'' @ [CHR 0x0A] @ ''title: Note'' @ [CHR 0x0A] @ ''author: bo'' @ [CHR 0x0A] @
     ''category: web'' @ [CHR 0x0A] @ ''created_at: 2025-11-28 10:00:00'' @ [CHR 0x0A] @
     ''updated_at: 2025-11-28 10:00:00'' @ [CHR 0x0A] @ ''status: 1'' @ [CHR 0x0A] @
     ''---'' @ [CHR 0x0A, CHR 0x0A]"


text \<open>
  \<open>plain t s\<close>: in the text \<open>t\<close>, followed by \<open>s\<close>, no position starts with
  \<^verbatim>\<open>![\<close>; no image link can begin inside \<open>t\<close>.
\<close>

fun plain :: "string \<Rightarrow> string \<Rightarrow> bool" where
  "plain [] s = True"
| "plain (c # t) s = (\<not> HasPrefix (c # t @ s) ''!['' \<and> plain t s)"

text \<open>
  An image whose file name is too long for a ZIP header: the last path segment has 65540
  bytes. The origin serves it.
\<close>

definition long_url :: string where
  "long_url = ''https://h.example/'' @ replicate 65536 (CHR ''a'') @ ''.png''"

definition net_long :: "string \<Rightarrow> http_reply" where
  "net_long url =
     (if url = long_url then Response 200 ''image/png'' (Some ''PNG'')
      else Response 404 [] (Some []))"

subsection \<open>Documents as sequences of texts and image links\<close>

text \<open>
  The statements about whole documents speak of bodies that are given as a sequence of
  plain texts and image links. \<open>render\<close> is the body text. In a well-formed sequence no
  image link begins inside a text, an alt text has no \<^verbatim>\<open>]\<close>, a target is not empty and
  has no \<^verbatim>\<open>)\<close>, and neither contains \<^verbatim>\<open>![\<close>.
\<close>

datatype seg = Text string | Img string string

fun render :: "seg list \<Rightarrow> string" where
  "render [] = []"
| "render (Text t # d) = t @ render d"
| "render (Img alt url # d) = original_link alt url @ render d"

fun well_formed :: "seg list \<Rightarrow> bool" where
  "well_formed [] = True"
| "well_formed (Text t # d) = (plain t (render d) \<and> well_formed d)"
| "well_formed (Img alt url # d) =
     (CHR '']'' \<notin> set alt \<and> plain alt '']'' \<and> url \<noteq> [] \<and> CHR '')'' \<notin> set url \<and> plain url '')''
      \<and> well_formed d)"

fun images :: "seg list \<Rightarrow> (string \<times> string) list" where
  "images [] = []"
| "images (Text t # d) = images d"
| "images (Img alt url # d) = (alt, url) # images d"

text \<open>The targets that the scanner extracts: server-local paths and remote URLs.\<close>

definition fetchable :: "string \<Rightarrow> bool" where
  "fetchable url =
     (HasPrefix url ''/uploads/'' \<or> HasPrefix url ''http://'' \<or> HasPrefix url ''https://'')"

text \<open>
  What the specification expects of the scanner, in its words: the token of a target is
  indexed by the position of the target's first occurrence among the image links of the
  document; every occurrence of an extracted target becomes that token; there is one
  reference for each extracted target, at its first occurrence.
\<close>

fun first_index :: "string \<Rightarrow> (string \<times> string) list \<Rightarrow> nat" where
  "first_index url [] = 0"
| "first_index url ((alt, v) # ms) = (if v = url then 0 else Suc (first_index url ms))"

definition token_of :: "seg list \<Rightarrow> string \<Rightarrow> string" where
  "token_of d url = placeholder (first_index url (images d))"

definition mark_urls :: "(string \<Rightarrow> bool) \<Rightarrow> (string \<Rightarrow> string) \<Rightarrow> seg list \<Rightarrow> seg list" where
  "mark_urls S tok d =
     map (\<lambda>sg. case sg of Text t \<Rightarrow> Text t
                | Img alt url \<Rightarrow> if S url then Text (tok url) else Img alt url) d"

definition marked :: "seg list \<Rightarrow> seg list" where
  "marked d = mark_urls fetchable (token_of d) d"

definition reference_at :: "(string \<times> string) list \<Rightarrow> nat \<Rightarrow> ImageInfo" where
  "reference_at ms i =
     \<lparr>Alt = fst (ms ! i), OriginalURL = snd (ms ! i),
      Type = (if HasPrefix (snd (ms ! i)) ''/uploads/'' then ''local'' else ''remote''),
      Placeholder = placeholder i\<rparr>"

definition first_occurrence :: "(string \<times> string) list \<Rightarrow> nat \<Rightarrow> bool" where
  "first_occurrence ms i = (fetchable (snd (ms ! i)) \<and> first_index (snd (ms ! i)) ms = i)"

definition references :: "seg list \<Rightarrow> ImageInfo list" where
  "references d =
     map (reference_at (images d)) (filter (first_occurrence (images d)) [0..<length (images d)])"

definition doc_example :: "seg list" where
  "doc_example =
     [Text ''Intro! '', Img ''a'' ''https://x.example/1.png'', Text '' and '',
      Img ''rel'' ''./local.png'', Img ''b'' ''https://x.example/1.png'']"






section \<open>Properties\<close>

subsection \<open>File names are not injective\<close>

lemma two_hosts_scan:
  "extractImages (generateMarkdownWithFrontMatter article_two_hosts) =
     (front_matter_7 @ ''__IMG_PLACEHOLDER_0__ __IMG_PLACEHOLDER_1__'',
      [\<lparr>Alt = ''a'', OriginalURL = ''https://a.example/p/x.png'', Type = ''remote'',
         Placeholder = ''__IMG_PLACEHOLDER_0__''\<rparr>,
       \<lparr>Alt = ''b'', OriginalURL = ''https://b.example/q/x.png?v=2'', Type = ''remote'',
         Placeholder = ''__IMG_PLACEHOLDER_1__''\<rparr>])"
  by code_simp

lemma two_hosts_fetch_a:
  "downloadImage (static_env net_two_hosts) w ''https://a.example/p/x.png'' =
     Some (Inr (''AAA'', ''x.png''),
           w\<lparr>tick := Suc (tick w), http_log := http_log w @ [''https://a.example/p/x.png'']\<rparr>)"
  by (subst downloadImage.simps)
     (simp add: static_env_def net_two_hosts_def extractFilename_def first_part_def
        last_part_def HasPrefix_def)

lemma two_hosts_fetch_b:
  "downloadImage (static_env net_two_hosts) w ''https://b.example/q/x.png?v=2'' =
     Some (Inr (''BBB'', ''x.png''),
           w\<lparr>tick := Suc (tick w), http_log := http_log w @ [''https://b.example/q/x.png?v=2'']\<rparr>)"
  by (subst downloadImage.simps)
     (simp add: static_env_def net_two_hosts_def extractFilename_def first_part_def
        last_part_def HasPrefix_def)

lemma two_hosts_rewrite_0:
  "ReplaceAll (front_matter_7 @ ''__IMG_PLACEHOLDER_0__ __IMG_PLACEHOLDER_1__'')
     ''__IMG_PLACEHOLDER_0__'' (new_link ''a'' ''x.png'') =
   front_matter_7 @ ''![a](./images/x.png) __IMG_PLACEHOLDER_1__''"
  by code_simp

lemma two_hosts_rewrite_1:
  "ReplaceAll (front_matter_7 @ ''![a](./images/x.png) __IMG_PLACEHOLDER_1__'')
     ''__IMG_PLACEHOLDER_1__'' (new_link ''b'' ''x.png'') =
   front_matter_7 @ ''![a](./images/x.png) ![b](./images/x.png)''"
  by code_simp

lemma two_hosts_name: "generateFilename article_two_hosts = ''7-Two-hosts.md''"
  by code_simp

text \<open>
  Claim C10. File name resolution in the export path is not injective: the two distinct
  URLs \<^verbatim>\<open>https://a.example/p/x.png\<close> and \<^verbatim>\<open>https://b.example/q/x.png?v=2\<close>,
  whose last path segments without the query are both \<^verbatim>\<open>x.png\<close>, resolve to the
  file name \<^verbatim>\<open>x.png\<close> whatever the world and the content type; and the export of one
  document that links both, the two hosts serving different bytes, creates two archive
  entries named \<^verbatim>\<open>images/x.png\<close> with different contents.
\<close>

theorem extractFilename_not_injective:
  "''https://a.example/p/x.png'' \<noteq> ''https://b.example/q/x.png?v=2'' \<and>
   (\<forall>e w ct. fst (extractFilename e w ''https://a.example/p/x.png'' ct) = ''x.png'' \<and>
             fst (extractFilename e w ''https://b.example/q/x.png?v=2'' ct) = ''x.png'') \<and>
   map_option fst (ExportToZip (static_env net_two_hosts) world0 [article_two_hosts]) =
     Some [(''images/x.png'', ''AAA''), (''images/x.png'', ''BBB''),
           (''7-Two-hosts.md'', front_matter_7 @ ''![a](./images/x.png) ![b](./images/x.png)'')]"
proof -
  have names: "\<forall>e w ct. fst (extractFilename e w ''https://a.example/p/x.png'' ct) = ''x.png'' \<and>
             fst (extractFilename e w ''https://b.example/q/x.png?v=2'' ct) = ''x.png''"
    by (simp add: extractFilename_def first_part_def last_part_def HasPrefix_def)
  have run: "map_option fst (ExportToZip (static_env net_two_hosts) world0 [article_two_hosts]) =
     Some [(''images/x.png'', ''AAA''), (''images/x.png'', ''BBB''),
           (''7-Two-hosts.md'', front_matter_7 @ ''![a](./images/x.png) ![b](./images/x.png)'')]"
    unfolding ExportToZip_def
    apply (simp only: export_articles.simps two_hosts_scan prod.case export_images.simps
        ImageInfo.simps fetch_image_def two_hosts_fetch_a two_hosts_fetch_b)
    apply (simp add: addFileToZip_def two_hosts_name two_hosts_rewrite_0 two_hosts_rewrite_1)
    done
  show ?thesis using names run by simp
qed

subsection \<open>Facts about \<^verbatim>\<open>strings.HasPrefix\<close> and \<^verbatim>\<open>strings.Contains\<close>\<close>

lemma HasPrefix_iff: "HasPrefix s p \<longleftrightarrow> (\<exists>r. s = p @ r)"
  by (metis HasPrefix_def append_eq_conv_conj append_take_drop_id)

lemma HasPrefix_Contains: "HasPrefix s sub \<Longrightarrow> Contains s sub"
  by (cases s) (auto simp: HasPrefix_def)

lemma Contains_self_append: "Contains (sub @ b) sub"
  by (rule HasPrefix_Contains) (simp add: HasPrefix_def)

lemma Contains_iff: "Contains s sub \<longleftrightarrow> (\<exists>a b. s = a @ sub @ b)"
proof (induction s)
  case Nil
  then show ?case by auto
next
  case (Cons c s)
  show ?case
  proof
    assume "Contains (c # s) sub"
    then consider "HasPrefix (c # s) sub" | "Contains s sub" by auto
    then show "\<exists>a b. c # s = a @ sub @ b"
    proof cases
      case 1
      then obtain r where "c # s = sub @ r" by (auto simp: HasPrefix_iff)
      then have "c # s = [] @ sub @ r" by simp
      then show ?thesis by blast
    next
      case 2
      then obtain a b where "s = a @ sub @ b" using Cons.IH by auto
      then have "c # s = (c # a) @ sub @ b" by simp
      then show ?thesis by blast
    qed
  next
    assume "\<exists>a b. c # s = a @ sub @ b"
    then obtain a b where ab: "c # s = a @ sub @ b" by auto
    show "Contains (c # s) sub"
    proof (cases a)
      case Nil
      then show ?thesis using ab Contains_self_append[of sub b] by simp
    next
      case (Cons x a')
      then have "s = a' @ sub @ b" using ab by simp
      then show ?thesis using Cons.IH by auto
    qed
  qed
qed

lemma Contains_append_left: "Contains s sub \<Longrightarrow> Contains (p @ s) sub"
  unfolding Contains_iff by (metis append.assoc)

subsection \<open>The proxy fallback of the export path\<close>

text \<open>
  In a world where every request fails in transport, a returning call of
  \<^verbatim>\<open>downloadImage\<close> cannot have been made on a URL of a hostile host: the proxied
  URL contains the original one, so it names the hostile host as well.
\<close>

lemma downloadImage_returns_not_hostile:
  assumes ok: "\<And>u. new_request_ok e u"
    and down: "\<And>n u. client_do e n u = TransportError"
    and ret: "downloadImage e w0 url0 = Some y0"
  shows "\<not> (Contains url0 ''cdn.nlark.com'' \<or> Contains url0 ''yuque.com'')"
proof -
  have "e = e \<longrightarrow> \<not> (Contains url0 ''cdn.nlark.com'' \<or> Contains url0 ''yuque.com'')"
  proof (rule downloadImage.raw_induct[where
        P = "\<lambda>e' w url y. e' = e \<longrightarrow> \<not> (Contains url ''cdn.nlark.com'' \<or> Contains url ''yuque.com'')",
        OF _ ret], goal_cases)
    case (1 f e' w url y)
    note IH = 1(1) and eq = 1(2)
    show ?case
    proof (intro impI notI)
      assume e': "e' = e" and h: "Contains url ''cdn.nlark.com'' \<or> Contains url ''yuque.com''"
      from eq e' h ok down
      have call: "f e (w\<lparr>tick := Suc (tick w), http_log := http_log w @ [url]\<rparr>)
                    (''https://images.weserv.nl/?url='' @ url) = Some y"
        by (simp add: Let_def del: Contains.simps)
      from h have "Contains (''https://images.weserv.nl/?url='' @ url) ''cdn.nlark.com''
                   \<or> Contains (''https://images.weserv.nl/?url='' @ url) ''yuque.com''"
        using Contains_append_left by blast
      with IH[OF call] show False by (simp del: Contains.simps)
    qed
  qed
  then show ?thesis by simp
qed

lemma downloadImage_never_returns:
  assumes "\<And>u. new_request_ok e u" and "\<And>n u. client_do e n u = TransportError"
    and "Contains url ''cdn.nlark.com'' \<or> Contains url ''yuque.com''"
  shows "downloadImage e w url = None"
proof (cases "downloadImage e w url")
  case None
  then show ?thesis .
next
  case (Some y)
  from downloadImage_returns_not_hostile[of e w url y, OF assms(1,2) Some] assms(3)
  show ?thesis by simp
qed

lemma tryDownload_log:
  "length (http_log (snd (tryDownload e w url))) \<le> Suc (length (http_log w))"
  by (simp add: tryDownload_def Let_def split: http_reply.splits option.splits)

lemma downloadAndUploadImage_two_attempts:
  "length (http_log (snd (downloadAndUploadImage p e w url))) \<le> length (http_log w) + 2"
proof -
  obtain r1 w1 where t1: "tryDownload e w url = (r1, w1)"
    by (cases "tryDownload e w url")
  obtain r2 w2 where t2: "tryDownload e w1 (''https://images.weserv.nl/?url='' @ url) = (r2, w2)"
    by (cases "tryDownload e w1 (''https://images.weserv.nl/?url='' @ url)")
  from tryDownload_log[of e w url] t1
  have l1: "length (http_log w1) \<le> Suc (length (http_log w))" by simp
  from tryDownload_log[of e w1 "''https://images.weserv.nl/?url='' @ url"] t2
  have l2: "length (http_log w2) \<le> Suc (length (http_log w1))" by simp
  show ?thesis using t1 t2 l1 l2
    by (auto simp: downloadAndUploadImage_def Let_def split: sum.splits option.splits prod.splits)
qed

text \<open>
  Claim C4, evaluated on the code. The normaliser's fetch makes at most two requests in
  every world. The export's fetch does not: with the network down, the call on
  \<^verbatim>\<open>https://cdn.nlark.com/x.png\<close> never returns, because the fallback calls the
  function again on the proxied URL, which still names the hostile host; and in a world
  where the first two requests fail and the third is answered, the call makes three
  requests, the third through the proxy of the proxy.
\<close>

theorem downloadImage_fallback_reenters:
  "(\<forall>p e w url. length (http_log (snd (downloadAndUploadImage p e w url))) \<le> length (http_log w) + 2) \<and>
   (\<forall>w. downloadImage env_down w ''https://cdn.nlark.com/x.png'' = None) \<and>
   downloadImage env_flaky world0 ''https://cdn.nlark.com/x.png'' =
     Some (Inr (''PNG'', ''x.png''),
           world0\<lparr>tick := 3,
                  http_log := [''https://cdn.nlark.com/x.png'',
                     ''https://images.weserv.nl/?url=https://cdn.nlark.com/x.png'',
                     ''https://images.weserv.nl/?url=https://images.weserv.nl/?url=https://cdn.nlark.com/x.png'']\<rparr>)"
proof -
  have never: "downloadImage env_down w ''https://cdn.nlark.com/x.png'' = None" for w
    by (rule downloadImage_never_returns) (simp_all add: env_down_def static_env_def HasPrefix_def)
  have three: "downloadImage env_flaky world0 ''https://cdn.nlark.com/x.png'' =
     Some (Inr (''PNG'', ''x.png''),
           world0\<lparr>tick := 3,
                  http_log := [''https://cdn.nlark.com/x.png'',
                     ''https://images.weserv.nl/?url=https://cdn.nlark.com/x.png'',
                     ''https://images.weserv.nl/?url=https://images.weserv.nl/?url=https://cdn.nlark.com/x.png'']\<rparr>)"
    apply (subst downloadImage.simps)
    apply (simp add: env_flaky_def static_env_def world0_def HasPrefix_def)
    apply (subst downloadImage.simps)
    apply (simp add: env_flaky_def static_env_def world0_def HasPrefix_def)
    apply (subst downloadImage.simps)
    apply (simp add: env_flaky_def static_env_def world0_def HasPrefix_def extractFilename_def
        first_part_def last_part_def)
    done
  show ?thesis using never three downloadAndUploadImage_two_attempts by simp
qed

subsection \<open>The normaliser never reports an error\<close>


subsection \<open>Documents with fixed metadata\<close>

lemma show_nat_1: "show_nat 1 = ''1''"
  by code_simp

lemma show_nat_2: "show_nat 2 = ''2''"
  by code_simp

lemma show_nat_Suc_Suc_0: "show_nat (Suc (Suc 0)) = ''2''"
  by code_simp

lemma plain_article_markdown:
  "generateMarkdownWithFrontMatter (plain_article n body) = plain_front_matter @ body"
  by code_simp

lemma plain_article_filename:
  "generateFilename (plain_article n body) = show_nat n @ ''-Note.md''"
  by code_simp

lemma plain_article_entry_ok:
  "n < 10 \<Longrightarrow> addFileToZip zw (generateFilename (plain_article n body)) data =
     Inr (zw @ [(show_nat n @ ''-Note.md'', data)])"
  by (simp add: plain_article_filename addFileToZip_def show_nat.simps)

subsection \<open>The export does not use the proxy after an HTTP status\<close>

lemma hotlink_scan:
  "extractImages (plain_front_matter @ ''![a](https://cdn.nlark.com/x.png)'') =
     (plain_front_matter @ ''__IMG_PLACEHOLDER_0__'',
      [\<lparr>Alt = ''a'', OriginalURL = ''https://cdn.nlark.com/x.png'', Type = ''remote'',
         Placeholder = ''__IMG_PLACEHOLDER_0__''\<rparr>])"
  by code_simp

lemma hotlink_fetch:
  "downloadImage (static_env net_hotlink) w ''https://cdn.nlark.com/x.png'' =
     Some (Inl (HttpStatus 403),
           w\<lparr>tick := Suc (tick w), http_log := http_log w @ [''https://cdn.nlark.com/x.png'']\<rparr>)"
  by (subst downloadImage.simps) (simp add: static_env_def net_hotlink_def)

lemma hotlink_rewrite:
  "ReplaceAll (plain_front_matter @ ''__IMG_PLACEHOLDER_0__'') ''__IMG_PLACEHOLDER_0__''
     (original_link ''a'' ''https://cdn.nlark.com/x.png'') =
   plain_front_matter @ ''![a](https://cdn.nlark.com/x.png)''"
  by code_simp

text \<open>
  Claim C2, evaluated on the code. The document is \<^verbatim>\<open>![a](https://cdn.nlark.com/x.png)\<close>;
  the origin answers 403 and the proxy would answer 200. The export asks the origin only,
  keeps the original link and stores no asset. On the same world the normaliser's fetch does
  go through the proxy and relocates the image.
\<close>

theorem export_no_proxy_after_status:
  "ExportToZip (static_env net_hotlink) world0
      [plain_article 2 ''![a](https://cdn.nlark.com/x.png)''] =
     Some ([(''2-Note.md'', plain_front_matter @ ''![a](https://cdn.nlark.com/x.png)'')],
           world0\<lparr>tick := 1, http_log := [''https://cdn.nlark.com/x.png''],
                  fetch_log := [(''https://cdn.nlark.com/x.png'', False)]\<rparr>) \<and>
   downloadAndUploadImage (NewImageProcessor [] []) (static_env net_hotlink) world0
      ''https://cdn.nlark.com/x.png'' =
     (Inr ''https://leaf.oss-cn-hangzhou.aliyuncs.com/articles/2025/11/28/id2.png'',
      world0\<lparr>tick := 3,
             http_log := [''https://cdn.nlark.com/x.png'',
                          ''https://images.weserv.nl/?url=https://cdn.nlark.com/x.png''],
             upload_log := [''articles/2025/11/28/id2.png'']\<rparr>)"
proof -
  have export: "ExportToZip (static_env net_hotlink) world0
      [plain_article 2 ''![a](https://cdn.nlark.com/x.png)''] =
     Some ([(''2-Note.md'', plain_front_matter @ ''![a](https://cdn.nlark.com/x.png)'')],
           world0\<lparr>tick := 1, http_log := [''https://cdn.nlark.com/x.png''],
                  fetch_log := [(''https://cdn.nlark.com/x.png'', False)]\<rparr>)"
    unfolding ExportToZip_def
    apply (simp only: export_articles.simps plain_article_markdown hotlink_scan prod.case
        export_images.simps ImageInfo.simps fetch_image_def hotlink_fetch)
    apply (simp add: hotlink_rewrite plain_article_entry_ok show_nat_2 note_fetch_def world0_def)
    done
  have normalise: "downloadAndUploadImage (NewImageProcessor [] []) (static_env net_hotlink) world0
      ''https://cdn.nlark.com/x.png'' =
     (Inr ''https://leaf.oss-cn-hangzhou.aliyuncs.com/articles/2025/11/28/id2.png'',
      world0\<lparr>tick := 3,
             http_log := [''https://cdn.nlark.com/x.png'',
                          ''https://images.weserv.nl/?url=https://cdn.nlark.com/x.png''],
             upload_log := [''articles/2025/11/28/id2.png'']\<rparr>)"
    by (simp add: downloadAndUploadImage_def tryDownload_def static_env_def net_hotlink_def
        NewImageProcessor_def world0_def HasPrefix_def Ext_def last_part_def Let_def
        show_nat_Suc_Suc_0)
  show ?thesis using export normalise by simp
qed

subsection \<open>The dedup map of the export\<close>

















subsection \<open>The matcher on texts of a known shape\<close>

lemma takeWhile_stop: "c \<notin> set xs \<Longrightarrow> takeWhile (\<lambda>x. x \<noteq> c) (xs @ c # ys) = xs"
  by (induction xs) auto

lemma dropWhile_stop: "c \<notin> set xs \<Longrightarrow> dropWhile (\<lambda>x. x \<noteq> c) (xs @ c # ys) = c # ys"
  by (induction xs) auto

lemma match_img_at_link:
  assumes "CHR '']'' \<notin> set alt" and "url \<noteq> []" and "CHR '')'' \<notin> set url"
  shows "match_img_at (''!['' @ alt @ '']('' @ url @ '')'' @ rest) = Some (alt, url, rest)"
proof -
  have a: "takeWhile (\<lambda>c. c \<noteq> CHR '']'') (alt @ CHR '']'' # CHR ''('' # url @ CHR '')'' # rest) = alt"
    using assms(1) by (rule takeWhile_stop)
  have b: "dropWhile (\<lambda>c. c \<noteq> CHR '']'') (alt @ CHR '']'' # CHR ''('' # url @ CHR '')'' # rest)
             = CHR '']'' # CHR ''('' # url @ CHR '')'' # rest"
    using assms(1) by (rule dropWhile_stop)
  have c: "takeWhile (\<lambda>c. c \<noteq> CHR '')'') (url @ CHR '')'' # rest) = url"
    using assms(3) by (rule takeWhile_stop)
  have d: "dropWhile (\<lambda>c. c \<noteq> CHR '')'') (url @ CHR '')'' # rest) = CHR '')'' # rest"
    using assms(3) by (rule dropWhile_stop)
  show ?thesis
    using assms(2) by (simp add: match_img_at_def HasPrefix_def a b c d)
qed

lemma match_img_at_SomeD:
  assumes "match_img_at s = Some (alt, url, rest)"
  shows "s = ''!['' @ alt @ '']('' @ url @ '')'' @ rest \<and> CHR '']'' \<notin> set alt \<and> url \<noteq> []
         \<and> CHR '')'' \<notin> set url"
proof -
  define t where "t = drop 2 s"
  define r where "r = dropWhile (\<lambda>c. c \<noteq> CHR '']'') t"
  define t2 where "t2 = drop 2 r"
  define r2 where "r2 = dropWhile (\<lambda>c. c \<noteq> CHR '')'') t2"
  from assms have p1: "HasPrefix s ''!['' " and p2: "HasPrefix r '']('' " and p3: "HasPrefix r2 '')'' "
    and alt: "alt = takeWhile (\<lambda>c. c \<noteq> CHR '']'') t"
    and url: "url = takeWhile (\<lambda>c. c \<noteq> CHR '')'') t2" and ne: "url \<noteq> []"
    and rest: "rest = drop 1 r2"
    by (auto simp: match_img_at_def Let_def t_def r_def t2_def r2_def split: if_splits)
  from p1 have s: "s = ''!['' @ t"
    unfolding t_def HasPrefix_def by (metis append_take_drop_id length_Cons list.size(3) numeral_2_eq_2)
  from p2 have r': "r = '']('' @ t2"
    unfolding t2_def HasPrefix_def by (metis append_take_drop_id length_Cons list.size(3) numeral_2_eq_2)
  from p3 have r2': "r2 = '')'' @ rest"
    unfolding rest HasPrefix_def by (metis One_nat_def append_take_drop_id length_Cons list.size(3))
  have t: "t = alt @ r" unfolding alt r_def by simp
  have t2': "t2 = url @ r2" unfolding url r2_def by simp
  have "CHR '']'' \<notin> set alt" unfolding alt by (auto dest: set_takeWhileD)
  moreover have "CHR '')'' \<notin> set url" unfolding url by (auto dest: set_takeWhileD)
  moreover have "s = ''!['' @ alt @ '']('' @ url @ '')'' @ rest"
    using s t r' t2' r2' by simp
  ultimately show ?thesis using ne by simp
qed

lemma match_img_at_no_prefix: "\<not> HasPrefix s ''!['' \<Longrightarrow> match_img_at s = None"
  by (simp add: match_img_at_def)

lemma match_url_at_no_prefix: "\<not> HasPrefix s ''!['' \<Longrightarrow> match_url_at u s = None"
  by (simp add: match_url_at_def)

lemma FindAll_Nil: "FindAllStringSubmatch [] = []"
  by (simp add: FindAllStringSubmatch.simps match_img_at_def HasPrefix_def)

lemma FindAll_link:
  assumes "CHR '']'' \<notin> set alt" and "url \<noteq> []" and "CHR '')'' \<notin> set url"
  shows "FindAllStringSubmatch (''!['' @ alt @ '']('' @ url @ '')'' @ rest) =
           (alt, url) # FindAllStringSubmatch rest"
  by (subst FindAllStringSubmatch.simps) (simp only: match_img_at_link[OF assms] option.case prod.case)

lemma FindAll_plain: "plain t s \<Longrightarrow> FindAllStringSubmatch (t @ s) = FindAllStringSubmatch s"
proof (induction t)
  case Nil
  then show ?case by simp
next
  case (Cons c t)
  then have "match_img_at (c # t @ s) = None"
    by (simp add: match_img_at_no_prefix)
  then have "FindAllStringSubmatch ((c # t) @ s) = FindAllStringSubmatch (t @ s)"
    by (subst FindAllStringSubmatch.simps) simp
  with Cons show ?case by simp
qed

lemma plain_no_bang: "CHR ''!'' \<notin> set t \<Longrightarrow> plain t s"
  by (induction t) (auto simp: HasPrefix_def)

text \<open>A text has a match exactly when it contains the image-link syntax somewhere.\<close>

lemma FindAll_nonempty_syntax:
  "FindAllStringSubmatch s \<noteq> [] \<Longrightarrow>
   \<exists>pre alt url rest. s = pre @ ''!['' @ alt @ '']('' @ url @ '')'' @ rest \<and>
      CHR '']'' \<notin> set alt \<and> url \<noteq> [] \<and> CHR '')'' \<notin> set url"
proof (induction s rule: FindAllStringSubmatch.induct)
  case (1 s)
  show ?case
  proof (cases "match_img_at s")
    case (Some m)
    obtain alt url rest where m: "m = (alt, url, rest)" by (cases m)
    from match_img_at_SomeD[of s alt url rest] Some m
    have "s = [] @ ''!['' @ alt @ '']('' @ url @ '')'' @ rest \<and> CHR '']'' \<notin> set alt \<and> url \<noteq> []
         \<and> CHR '')'' \<notin> set url" by simp
    then show ?thesis by blast
  next
    case None
    with "1.prems" have ne: "s \<noteq> []" and tl: "FindAllStringSubmatch (tl s) \<noteq> []"
      by (auto simp: FindAllStringSubmatch.simps[of s] split: if_splits)
    from "1.IH"(1)[OF None ne tl] obtain pre alt url rest where
      d: "tl s = pre @ ''!['' @ alt @ '']('' @ url @ '')'' @ rest" "CHR '']'' \<notin> set alt" "url \<noteq> []"
         "CHR '')'' \<notin> set url"
      by blast
    from ne d(1) have "s = (hd s # pre) @ ''!['' @ alt @ '']('' @ url @ '')'' @ rest"
      by (cases s) auto
    with d(2-4) show ?thesis by blast
  qed
qed

lemma FindAll_syntax_nonempty:
  assumes "CHR '']'' \<notin> set alt" and "url \<noteq> []" and "CHR '')'' \<notin> set url"
  shows "FindAllStringSubmatch (pre @ ''!['' @ alt @ '']('' @ url @ '')'' @ rest) \<noteq> []"
proof (induction pre)
  case Nil
  show ?case using FindAll_link[OF assms, of rest] by simp
next
  case (Cons c pre)
  let ?s = "(c # pre) @ ''!['' @ alt @ '']('' @ url @ '')'' @ rest"
  show ?case
  proof (cases "match_img_at ?s")
    case None
    then have "FindAllStringSubmatch ?s =
        FindAllStringSubmatch (pre @ ''!['' @ alt @ '']('' @ url @ '')'' @ rest)"
      by (subst FindAllStringSubmatch.simps) simp
    with Cons show ?thesis by simp
  next
    case (Some m)
    then show ?thesis
      by (subst FindAllStringSubmatch.simps) (simp split: prod.splits)
  qed
qed

lemma FindAll_empty_iff:
  "FindAllStringSubmatch s = [] \<longleftrightarrow>
   \<not> (\<exists>pre alt url rest. s = pre @ ''!['' @ alt @ '']('' @ url @ '')'' @ rest \<and>
        CHR '']'' \<notin> set alt \<and> url \<noteq> [] \<and> CHR '')'' \<notin> set url)"
  using FindAll_nonempty_syntax[of s] FindAll_syntax_nonempty by blast

subsection \<open>Texts without image links\<close>

text \<open>
  Claim C8. A body that nowhere contains the image-link syntax, a \<^verbatim>\<open>![\<close>, an alt text
  without \<^verbatim>\<open>]\<close>, \<^verbatim>\<open>](\<close>, a non-empty target without \<^verbatim>\<open>)\<close> and a \<^verbatim>\<open>)\<close>,
  is returned unchanged by the scanner, with an empty list of references; the normaliser
  returns it unchanged as well and leaves the world as it is.
\<close>

theorem extractImages_no_image_syntax:
  assumes "\<not> (\<exists>pre alt url rest. markdown = pre @ ''!['' @ alt @ '']('' @ url @ '')'' @ rest \<and>
        CHR '']'' \<notin> set alt \<and> url \<noteq> [] \<and> CHR '')'' \<notin> set url)"
  shows "extractImages markdown = (markdown, []) \<and>
         ProcessMarkdownImages p e w markdown = ((markdown, None), w)"
proof -
  have "FindAllStringSubmatch markdown = []"
    using iffD2[OF FindAll_empty_iff assms] .
  then show ?thesis
    by (simp add: extractImages_def ProcessMarkdownImages_def)
qed

lemma no_syntax_example: "FindAllStringSubmatch ''Read [the docs](https://x.example/a)! ![broken](''
  = []"
  by code_simp

theorem extractImages_no_image_syntax_witness:
  "\<not> (\<exists>pre alt url rest. ''Read [the docs](https://x.example/a)! ![broken]('' =
          pre @ ''!['' @ alt @ '']('' @ url @ '')'' @ rest \<and>
        CHR '']'' \<notin> set alt \<and> url \<noteq> [] \<and> CHR '')'' \<notin> set url) \<and>
   extractImages ''Read [the docs](https://x.example/a)! ![broken]('' =
     (''Read [the docs](https://x.example/a)! ![broken]('', []) \<and>
   ProcessMarkdownImages (NewImageProcessor [] []) env_down world0
       ''Read [the docs](https://x.example/a)! ![broken]('' =
     ((''Read [the docs](https://x.example/a)! ![broken]('', None), world0)"
proof -
  have h: "\<not> (\<exists>pre alt url rest. ''Read [the docs](https://x.example/a)! ![broken]('' =
          pre @ ''!['' @ alt @ '']('' @ url @ '')'' @ rest \<and>
        CHR '']'' \<notin> set alt \<and> url \<noteq> [] \<and> CHR '')'' \<notin> set url)"
    using iffD1[OF FindAll_empty_iff no_syntax_example] .
  from extractImages_no_image_syntax[OF h] h show ?thesis by blast
qed

subsection \<open>What the normaliser skips\<close>

lemma process_loop_all_processed:
  "\<forall>(alt, url) \<in> set matches. already_processed url \<Longrightarrow>
   process_loop p e matches content w = (content, w)"
  by (induction matches) auto

text \<open>
  Claim C6, evaluated on the code. The guard of the loop skips a target that starts with
  \<^verbatim>\<open>/uploads/\<close> or contains \<^verbatim>\<open>oss-cn-\<close> or \<^verbatim>\<open>aliyuncs.com\<close>, and no other,
  although its comment speaks of images that are already in storage or local, and the
  scanner of the export skips \<^verbatim>\<open>./\<close> and \<^verbatim>\<open>../\<close>. For the body
  \<^verbatim>\<open>![a](./images/x.png)\<close> the normaliser hands the relative path to
  \<^verbatim>\<open>client.Do\<close>; the request fails in transport (a URL without scheme), and the body
  comes back unchanged after one fetch attempt, not after none.
\<close>

theorem ProcessMarkdownImages_fetches_relative:
  "ProcessMarkdownImages (NewImageProcessor [] []) env_down world0 ''![a](./images/x.png)'' =
     ((''![a](./images/x.png)'', None), world0\<lparr>tick := 1, http_log := [''./images/x.png'']\<rparr>)"
proof -
  have m: "FindAllStringSubmatch ''![a](./images/x.png)'' = [(''a'', ''./images/x.png'')]"
    by code_simp
  have s: "\<not> already_processed ''./images/x.png''"
    by code_simp
  have h: "\<not> (Contains ''./images/x.png'' ''cdn.nlark.com'' \<or> Contains ''./images/x.png'' ''yuque.com'')"
    by code_simp
  have d: "downloadAndUploadImage (NewImageProcessor [] []) env_down world0 ''./images/x.png'' =
      (Inl TransportFailure, world0\<lparr>tick := 1, http_log := [''./images/x.png'']\<rparr>)"
    using h by (simp add: downloadAndUploadImage_def tryDownload_def env_down_def static_env_def
        world0_def del: Contains.simps)
  show ?thesis
    by (simp add: ProcessMarkdownImages_def m s d del: Contains.simps)
qed

text \<open>
  The guard itself is total: when every image target of the body starts with
  \<^verbatim>\<open>/uploads/\<close> or contains \<^verbatim>\<open>oss-cn-\<close> or \<^verbatim>\<open>aliyuncs.com\<close>, the normaliser
  returns the body unchanged, with a nil error, and leaves the world as it is: no request,
  no upload.
\<close>

lemma ProcessMarkdownImages_skips_processed:
  assumes "\<forall>(alt, url) \<in> set (FindAllStringSubmatch content). already_processed url"
  shows "ProcessMarkdownImages p e w content = ((content, None), w)"
  using process_loop_all_processed[OF assms, of p e content w]
  by (simp add: ProcessMarkdownImages_def Let_def)

lemma ProcessMarkdownImages_skips_processed_example:
  "(\<forall>(alt, url) \<in> set (FindAllStringSubmatch
        ''![a](/uploads/x.png) ![b](https://leaf.oss-cn-hangzhou.aliyuncs.com/y.png)'').
      already_processed url) \<and>
   ProcessMarkdownImages (NewImageProcessor [] []) (static_env net_two_hosts) world0
       ''![a](/uploads/x.png) ![b](https://leaf.oss-cn-hangzhou.aliyuncs.com/y.png)'' =
     ((''![a](/uploads/x.png) ![b](https://leaf.oss-cn-hangzhou.aliyuncs.com/y.png)'', None), world0)"
proof -
  have m: "FindAllStringSubmatch
      ''![a](/uploads/x.png) ![b](https://leaf.oss-cn-hangzhou.aliyuncs.com/y.png)'' =
      [(''a'', ''/uploads/x.png''), (''b'', ''https://leaf.oss-cn-hangzhou.aliyuncs.com/y.png'')]"
    by code_simp
  have s1: "already_processed ''/uploads/x.png''"
    by code_simp
  have s2: "already_processed ''https://leaf.oss-cn-hangzhou.aliyuncs.com/y.png''"
    by code_simp
  have h: "\<forall>(alt, url) \<in> set (FindAllStringSubmatch
        ''![a](/uploads/x.png) ![b](https://leaf.oss-cn-hangzhou.aliyuncs.com/y.png)'').
      already_processed url"
    unfolding m using s1 s2 by simp
  from ProcessMarkdownImages_skips_processed[OF h] h show ?thesis by blast
qed

subsection \<open>Replacement on texts of a known shape\<close>

lemma match_url_at_link:
  assumes "CHR '']'' \<notin> set alt"
  shows "match_url_at u (''!['' @ alt @ '']('' @ u @ '')'' @ rest) = Some rest"
proof -
  have "dropWhile (\<lambda>c. c \<noteq> CHR '']'') (alt @ CHR '']'' # CHR ''('' # u @ CHR '')'' # rest)
          = CHR '']'' # CHR ''('' # u @ CHR '')'' # rest"
    using assms by (rule dropWhile_stop)
  then show ?thesis
    by (simp add: match_url_at_def HasPrefix_def numeral_3_eq_3)
qed

lemma ReplaceAllString_Nil: "ReplaceAllString u [] repl = []"
  by (simp add: ReplaceAllString.simps match_url_at_def HasPrefix_def)

lemma ReplaceAllString_link_same:
  assumes "CHR '']'' \<notin> set alt"
  shows "ReplaceAllString u (''!['' @ alt @ '']('' @ u @ '')'' @ rest) repl =
           repl @ ReplaceAllString u rest repl"
  by (subst ReplaceAllString.simps) (simp only: match_url_at_link[OF assms] option.case)

lemma ReplaceAllString_plain:
  "plain t s \<Longrightarrow> ReplaceAllString u (t @ s) repl = t @ ReplaceAllString u s repl"
proof (induction t)
  case Nil
  then show ?case by simp
next
  case (Cons c t)
  then have "match_url_at u (c # t @ s) = None"
    by (simp add: match_url_at_no_prefix)
  then have "ReplaceAllString u ((c # t) @ s) repl = c # ReplaceAllString u (t @ s) repl"
    by (subst ReplaceAllString.simps) simp
  with Cons show ?case by simp
qed

lemma last_part_after: "sep \<notin> set b \<Longrightarrow> last_part sep (a @ sep # b) = b"
proof -
  assume "sep \<notin> set b"
  then have "sep \<notin> set (rev b)" by simp
  then have "takeWhile (\<lambda>c. c \<noteq> sep) (rev b @ sep # rev a) = rev b"
    by (rule takeWhile_stop)
  then show ?thesis by (simp add: last_part_def)
qed

lemma first_part_all: "sep \<notin> set s \<Longrightarrow> first_part sep s = s"
  by (auto simp: first_part_def takeWhile_eq_all_conv)

subsection \<open>A placeholder left in an exported document\<close>

lemma long_url_chars:
  "CHR '')'' \<notin> set long_url" "long_url \<noteq> []"
  by (simp_all add: long_url_def)

lemma long_url_kind:
  "\<not> HasPrefix long_url ''./''" "\<not> HasPrefix long_url ''../''"
  "\<not> HasPrefix long_url ''/uploads/''" "HasPrefix long_url ''https://''"
  by (simp_all add: long_url_def HasPrefix_def)

lemma plain_front_matter_plain: "plain plain_front_matter s"
  by (rule plain_no_bang) (simp add: plain_front_matter_def)

lemma placeholder_0: "placeholder 0 = ''__IMG_PLACEHOLDER_0__''"
  by code_simp

lemma long_scan:
  "extractImages (plain_front_matter @ ''![a]('' @ long_url @ '')'') =
     (plain_front_matter @ ''__IMG_PLACEHOLDER_0__'',
      [\<lparr>Alt = ''a'', OriginalURL = long_url, Type = ''remote'',
         Placeholder = ''__IMG_PLACEHOLDER_0__''\<rparr>])"
proof -
  have link: "''![a]('' @ long_url @ '')'' = ''!['' @ ''a'' @ '']('' @ long_url @ '')'' @ []"
    by simp
  have alt: "CHR '']'' \<notin> set ''a''"
    by simp
  have "FindAllStringSubmatch (plain_front_matter @ (''!['' @ ''a'' @ '']('' @ long_url @ '')'' @ [])) =
      [(''a'', long_url)]"
    by (simp only: FindAll_plain[OF plain_front_matter_plain]
        FindAll_link[OF alt long_url_chars(2) long_url_chars(1)] FindAll_Nil)
  then have m: "FindAllStringSubmatch (plain_front_matter @ ''![a]('' @ long_url @ '')'') =
      [(''a'', long_url)]"
    by (simp only: link)
  have "ReplaceAllString long_url (plain_front_matter @ (''!['' @ ''a'' @ '']('' @ long_url @ '')'' @ []))
      ''__IMG_PLACEHOLDER_0__'' = plain_front_matter @ ''__IMG_PLACEHOLDER_0__'' @ []"
    by (simp only: ReplaceAllString_plain[OF plain_front_matter_plain]
        ReplaceAllString_link_same[OF alt] ReplaceAllString_Nil)
  then have r: "ReplaceAllString long_url (plain_front_matter @ ''![a]('' @ long_url @ '')'')
      ''__IMG_PLACEHOLDER_0__'' = plain_front_matter @ ''__IMG_PLACEHOLDER_0__''"
    by (simp only: link append_Nil2)
  show ?thesis
    by (simp add: extractImages_def m[simplified] long_url_kind placeholder_0 r[simplified])
qed

lemma long_filename:
  "extractFilename e w long_url contentType = (replicate 65536 (CHR ''a'') @ ''.png'', w)"
proof -
  have split: "long_url = ''https://h.example'' @ CHR ''/'' # (replicate 65536 (CHR ''a'') @ ''.png'')"
    by (simp add: long_url_def)
  have l: "last_part (CHR ''/'') long_url = replicate 65536 (CHR ''a'') @ ''.png''"
    unfolding split by (rule last_part_after) simp
  have f: "first_part (CHR ''?'') (replicate 65536 (CHR ''a'') @ ''.png'') =
      replicate 65536 (CHR ''a'') @ ''.png''"
    by (rule first_part_all) simp
  have c: "Contains (replicate 65536 (CHR ''a'') @ ''.png'') ''.''"
    unfolding Contains_iff by (rule exI[of _ "replicate 65536 (CHR ''a'')"], rule exI[of _ "''png''"]) simp
  show ?thesis
    using c by (simp add: extractFilename_def l f del: Contains.simps)
qed

lemma long_fetch:
  "downloadImage (static_env net_long) w long_url =
     Some (Inr (''PNG'', replicate 65536 (CHR ''a'') @ ''.png''),
           w\<lparr>tick := Suc (tick w), http_log := http_log w @ [long_url]\<rparr>)"
  by (subst downloadImage.simps) (simp add: static_env_def net_long_def long_filename)

lemma long_entry_refused:
  "addFileToZip zw (''images/'' @ replicate 65536 (CHR ''a'') @ ''.png'') data = Inl ZipNameTooLong"
  by (simp add: addFileToZip_def)

text \<open>
  Claim C1, evaluated on the code. The document links one image whose file name makes the
  archive entry \<^verbatim>\<open>images/<name>\<close> longer than 65535 bytes. The fetch succeeds,
  \<^verbatim>\<open>addFileToZip\<close> fails, and the loop goes on to the next reference without
  replacing the placeholder: the exported document contains the bare token
  \<^verbatim>\<open>__IMG_PLACEHOLDER_0__\<close> where the link was.
\<close>

theorem export_leaves_placeholder:
  "ExportToZip (static_env net_long) world0 [plain_article 2 (''![a]('' @ long_url @ '')'')] =
     Some ([(''2-Note.md'', plain_front_matter @ ''__IMG_PLACEHOLDER_0__'')],
           world0\<lparr>tick := 1, http_log := [long_url], fetch_log := [(long_url, False)]\<rparr>)"
  unfolding ExportToZip_def
  apply (simp only: export_articles.simps plain_article_markdown long_scan prod.case
      export_images.simps ImageInfo.simps fetch_image_def long_fetch)
  apply (simp add: long_entry_refused[simplified] plain_article_entry_ok show_nat_2
      note_fetch_def world0_def)
  done

subsection \<open>Texts in which no image link begins\<close>

lemma plain_append: "plain (a @ b) s \<longleftrightarrow> plain a (b @ s) \<and> plain b s"
  by (induction a) auto

lemma plain_next:
  "plain t s \<Longrightarrow> (HasPrefix s' ''['' \<Longrightarrow> HasPrefix s ''['') \<Longrightarrow> plain t s'"
proof (induction t)
  case Nil
  then show ?case by simp
next
  case (Cons c t)
  show ?case
  proof (cases t)
    case Nil
    with Cons.prems show ?thesis
      by (cases s'; cases s) (auto simp: HasPrefix_def)
  next
    case (Cons x t')
    with Cons.prems Cons.IH show ?thesis
      by (auto simp: HasPrefix_def)
  qed
qed

lemma plain_link_tail:
  assumes "plain alt '']''" and "plain url '')''"
  shows "plain (''['' @ alt @ '']('' @ url @ '')'') s"
proof -
  have a: "plain alt ('']('' @ url @ '')'' @ s)"
    using assms(1) by (rule plain_next) (simp add: HasPrefix_def)
  have u: "plain url ('')'' @ s)"
    using assms(2) by (rule plain_next) (simp add: HasPrefix_def)
  have "plain ''['' (alt @ '']('' @ url @ '')'' @ s)"
    by (rule plain_no_bang) simp
  moreover have "plain '']('' (url @ '')'' @ s)"
    by (rule plain_no_bang) simp
  moreover have "plain '')'' s"
    by (rule plain_no_bang) simp
  ultimately show ?thesis
    using a u by (simp add: plain_append HasPrefix_def)
qed

subsection \<open>Scanning a well-formed document\<close>

lemma FindAll_render: "well_formed d \<Longrightarrow> FindAllStringSubmatch (render d) = images d"
proof (induction d rule: render.induct)
  case 1
  show ?case by (simp add: FindAll_Nil)
next
  case (2 t d)
  then show ?case by (simp add: FindAll_plain)
next
  case (3 alt url d)
  then have c: "CHR '']'' \<notin> set alt" "url \<noteq> []" "CHR '')'' \<notin> set url"
    and IH: "FindAllStringSubmatch (render d) = images d"
    by simp_all
  have "FindAllStringSubmatch (''!['' @ alt @ '']('' @ url @ '')'' @ render d) =
      (alt, url) # FindAllStringSubmatch (render d)"
    using c by (rule FindAll_link)
  then show ?case using IH by (simp add: original_link_def)
qed

lemma link_target_eq:
  assumes "CHR '')'' \<notin> set v" and "CHR '')'' \<notin> set u"
    and "HasPrefix (v @ '')'' @ rest) (u @ '')'')"
  shows "v = u"
proof -
  from assms(3) obtain r where r: "v @ CHR '')'' # rest = u @ CHR '')'' # r"
    by (auto simp: HasPrefix_iff)
  then have "takeWhile (\<lambda>c. c \<noteq> CHR '')'') (v @ CHR '')'' # rest) =
             takeWhile (\<lambda>c. c \<noteq> CHR '')'') (u @ CHR '')'' # r)"
    by simp
  then show ?thesis
    by (simp add: takeWhile_stop assms(1,2))
qed

lemma match_url_at_other:
  assumes "CHR '']'' \<notin> set alt" and "CHR '')'' \<notin> set v" and "CHR '')'' \<notin> set u" and "v \<noteq> u"
  shows "match_url_at u (''!['' @ alt @ '']('' @ v @ '')'' @ rest) = None"
proof -
  have d: "dropWhile (\<lambda>c. c \<noteq> CHR '']'') (alt @ CHR '']'' # CHR ''('' # v @ CHR '')'' # rest)
          = CHR '']'' # CHR ''('' # v @ CHR '')'' # rest"
    using assms(1) by (rule dropWhile_stop)
  have "\<not> HasPrefix (v @ '')'' @ rest) (u @ '')'')"
    using link_target_eq[OF assms(2,3)] assms(4) by blast
  then have "\<not> HasPrefix ('']('' @ v @ '')'' @ rest) ('']('' @ u @ '')'')"
    by (auto simp: HasPrefix_iff)
  then show ?thesis
    using d by (simp add: match_url_at_def HasPrefix_def)
qed

lemma ReplaceAllString_link_other:
  assumes "CHR '']'' \<notin> set alt" and "CHR '')'' \<notin> set v" and "CHR '')'' \<notin> set u" and "v \<noteq> u"
    and "plain alt '']''" and "plain v '')''"
  shows "ReplaceAllString u (''!['' @ alt @ '']('' @ v @ '')'' @ rest) repl =
           ''!['' @ alt @ '']('' @ v @ '')'' @ ReplaceAllString u rest repl"
proof -
  have "ReplaceAllString u (''!['' @ alt @ '']('' @ v @ '')'' @ rest) repl =
        CHR ''!'' # ReplaceAllString u ((''['' @ alt @ '']('' @ v @ '')'') @ rest) repl"
    by (subst ReplaceAllString.simps) (simp add: match_url_at_other[OF assms(1-4), simplified])
  also have "\<dots> = CHR ''!'' # (''['' @ alt @ '']('' @ v @ '')'') @ ReplaceAllString u rest repl"
    by (simp only: ReplaceAllString_plain[OF plain_link_tail[OF assms(5,6)]])
  finally show ?thesis by simp
qed

lemma ReplaceAllString_render:
  assumes "CHR '')'' \<notin> set u"
  shows "well_formed d \<Longrightarrow>
         ReplaceAllString u (render d) repl = render (mark_urls (\<lambda>v. v = u) (\<lambda>v. repl) d)"
proof (induction d rule: render.induct)
  case 1
  show ?case by (simp add: mark_urls_def ReplaceAllString_Nil)
next
  case (2 t d)
  then show ?case by (simp add: mark_urls_def ReplaceAllString_plain)
next
  case (3 alt v d)
  show ?case
  proof (cases "v = u")
    case True
    with 3 show ?thesis
      using ReplaceAllString_link_same[of alt u "render d" repl]
      by (simp add: mark_urls_def original_link_def)
  next
    case False
    with 3 assms show ?thesis
      using ReplaceAllString_link_other[of alt v u "render d" repl]
      by (simp add: mark_urls_def original_link_def)
  qed
qed

text \<open>A token that is not empty, does not begin with a bracket and has no exclamation mark.\<close>

lemma render_mark_next:
  assumes "\<And>v. tok v \<noteq> [] \<and> hd (tok v) \<noteq> CHR ''[''"
  shows "HasPrefix (render (mark_urls S tok d)) ''['' \<Longrightarrow> HasPrefix (render d) ''[''"
proof (induction d rule: render.induct)
  case 1
  then show ?case by (simp add: mark_urls_def)
next
  case (2 t d)
  then show ?case
    by (cases t) (auto simp: mark_urls_def HasPrefix_def)
next
  case (3 alt url d)
  show ?case
  proof (cases "S url")
    case True
    from assms[of url] obtain c r where "tok url = c # r" "c \<noteq> CHR ''[''"
      by (cases "tok url") auto
    with 3 True show ?thesis by (simp add: mark_urls_def HasPrefix_def)
  next
    case False
    with 3 show ?thesis by (simp add: mark_urls_def HasPrefix_def original_link_def)
  qed
qed

lemma well_formed_mark:
  assumes "\<And>v. tok v \<noteq> [] \<and> hd (tok v) \<noteq> CHR ''[''" and "\<And>v. CHR ''!'' \<notin> set (tok v)"
  shows "well_formed d \<Longrightarrow> well_formed (mark_urls S tok d)"
proof (induction d rule: render.induct)
  case 1
  show ?case by (simp add: mark_urls_def)
next
  case (2 t d)
  then have p: "plain t (render d)" and wf: "well_formed (mark_urls S tok d)"
    by simp_all
  have "plain t (render (mark_urls S tok d))"
  proof (rule plain_next[OF p])
    assume "HasPrefix (render (mark_urls S tok d)) ''[''"
    then show "HasPrefix (render d) ''[''"
      by (rule render_mark_next[OF assms(1)])
  qed
  with wf show ?case by (simp add: mark_urls_def)
next
  case (3 alt url d)
  then have wf: "well_formed (mark_urls S tok d)" by simp
  show ?case
  proof (cases "S url")
    case True
    have "plain (tok url) (render (mark_urls S tok d))"
      using assms(2) by (rule plain_no_bang)
    with wf True show ?thesis by (simp add: mark_urls_def)
  next
    case False
    with 3 wf show ?thesis by (simp add: mark_urls_def)
  qed
qed

subsection \<open>Placeholder tokens\<close>

lemma digit_char_digit: "d < 10 \<Longrightarrow> digit_char d \<in> set ''0123456789''"
proof -
  have "\<forall>k \<in> set [0..<10]. digit_char k \<in> set ''0123456789''"
    by code_simp
  moreover assume "d < 10"
  ultimately show ?thesis by simp
qed

lemma show_nat_digits: "set (show_nat n) \<subseteq> set ''0123456789''"
proof (induction n rule: show_nat.induct)
  case (1 n)
  show ?case
  proof (cases "n < 10")
    case True
    then show ?thesis
      using digit_char_digit[of n] by (subst show_nat.simps) simp
  next
    case False
    then have "set (show_nat (n div 10)) \<subseteq> set ''0123456789''"
      using 1 by simp
    moreover have "digit_char (n mod 10) \<in> set ''0123456789''"
      by (rule digit_char_digit) simp
    ultimately show ?thesis
      using False by (subst show_nat.simps) simp
  qed
qed

lemma placeholder_neutral:
  "placeholder i \<noteq> [] \<and> hd (placeholder i) \<noteq> CHR ''[''" "CHR ''!'' \<notin> set (placeholder i)"
  using show_nat_digits[of i] by (auto simp: placeholder_def)

lemma show_nat_value:
  "foldl (\<lambda>a c. 10 * a + (of_char c - 48)) (0::nat) (show_nat n) = n"
proof (induction n rule: show_nat.induct)
  case (1 n)
  show ?case
  proof (cases "n < 10")
    case True
    then show ?thesis
      by (subst show_nat.simps) (simp add: digit_char_def)
  next
    case False
    then have "foldl (\<lambda>a c. 10 * a + (of_char c - 48)) (0::nat) (show_nat (n div 10)) = n div 10"
      using 1 by simp
    moreover have "(of_char (digit_char (n mod 10)) :: nat) - 48 = n mod 10"
      by (simp add: digit_char_def)
    ultimately show ?thesis
      using False by (subst show_nat.simps) simp
  qed
qed

lemma show_nat_inj:
  assumes "show_nat i = show_nat j"
  shows "i = j"
proof -
  have "i = foldl (\<lambda>a c. 10 * a + (of_char c - 48)) (0::nat) (show_nat i)"
    by (rule show_nat_value[symmetric])
  also have "\<dots> = foldl (\<lambda>a c. 10 * a + (of_char c - 48)) (0::nat) (show_nat j)"
    by (simp only: assms)
  also have "\<dots> = j"
    by (rule show_nat_value)
  finally show ?thesis .
qed

lemma placeholder_inj: "placeholder i = placeholder j \<Longrightarrow> i = j"
  by (simp add: placeholder_def show_nat_inj)

subsection \<open>First occurrences\<close>

lemma first_index_before:
  "u \<in> snd ` set (take i ms) \<Longrightarrow> first_index u ms < i"
proof (induction ms arbitrary: i)
  case Nil
  then show ?case by simp
next
  case (Cons m ms)
  obtain a v where m: "m = (a, v)" by (cases m)
  show ?case
  proof (cases i)
    case 0
    with Cons.prems show ?thesis by simp
  next
    case (Suc k)
    with Cons.prems m Cons.IH[of k] show ?thesis by auto
  qed
qed

lemma first_index_here:
  "i < length ms \<Longrightarrow> snd (ms ! i) = u \<Longrightarrow> u \<notin> snd ` set (take i ms) \<Longrightarrow> first_index u ms = i"
proof (induction ms arbitrary: i)
  case Nil
  then show ?case by simp
next
  case (Cons m ms)
  obtain a v where m: "m = (a, v)" by (cases m)
  show ?case
  proof (cases i)
    case 0
    with Cons.prems m show ?thesis by simp
  next
    case (Suc k)
    with Cons.prems m Cons.IH[of k] show ?thesis by auto
  qed
qed

lemma first_index_found:
  "u \<in> snd ` set ms \<Longrightarrow> first_index u ms < length ms \<and> snd (ms ! first_index u ms) = u"
proof (induction ms)
  case Nil
  then show ?case by simp
next
  case (Cons m ms)
  obtain a v where m: "m = (a, v)" by (cases m)
  with Cons show ?case by auto
qed

lemma fetchable_not_relative:
  "fetchable u \<Longrightarrow> \<not> HasPrefix u ''./'' \<and> \<not> HasPrefix u ''../''"
  by (auto simp: fetchable_def HasPrefix_iff)

lemma images_well_formed:
  "well_formed d \<Longrightarrow> (a, u) \<in> set (images d) \<Longrightarrow>
   CHR '']'' \<notin> set a \<and> u \<noteq> [] \<and> CHR '')'' \<notin> set u"
  by (induction d rule: render.induct) auto

lemma images_set: "(a, u) \<in> set (images d) \<longleftrightarrow> Img a u \<in> set d"
  by (induction d rule: render.induct) auto

lemma mark_urls_none: "mark_urls (\<lambda>v. False) tok d = d"
  by (induction d rule: render.induct) (auto simp: mark_urls_def)

lemma mark_urls_step:
  "tok u = ph \<Longrightarrow>
   mark_urls (\<lambda>v. v = u) (\<lambda>v. ph) (mark_urls (\<lambda>v. v \<in> S) tok d) = mark_urls (\<lambda>v. v \<in> insert u S) tok d"
  by (induction d rule: render.induct) (auto simp: mark_urls_def)

lemma mark_urls_cong:
  "(\<And>a v. Img a v \<in> set d \<Longrightarrow> S v = S' v) \<Longrightarrow> mark_urls S tok d = mark_urls S' tok d"
  by (induction d rule: render.induct) (auto simp: mark_urls_def)

subsection \<open>The scanner on a well-formed document\<close>

lemma extractImages_loop_render:
  assumes wf: "well_formed d"
  shows "i \<le> length (images d) \<Longrightarrow>
    extractImages_loop i (drop i (images d))
      (render (mark_urls (\<lambda>v. v \<in> {v \<in> snd ` set (take i (images d)). fetchable v}) (token_of d) d))
      infos {v \<in> snd ` set (take i (images d)). fetchable v} =
    (render (marked d),
     infos @ map (reference_at (images d))
               (filter (first_occurrence (images d)) [i..<length (images d)]))"
proof (induction "length (images d) - i" arbitrary: i infos)
  case 0
  then have i: "i = length (images d)" by simp
  have "mark_urls (\<lambda>v. v \<in> {v \<in> snd ` set (images d). fetchable v}) (token_of d) d =
        mark_urls fetchable (token_of d) d"
  proof (rule mark_urls_cong)
    fix a v assume "Img a v \<in> set d"
    then have "(a, v) \<in> set (images d)" by (simp add: images_set)
    then have "v \<in> snd ` set (images d)" by force
    then show "(v \<in> {v \<in> snd ` set (images d). fetchable v}) = fetchable v" by simp
  qed
  then show ?case using i by (simp add: marked_def)
next
  case (Suc n)
  let ?ms = "images d"
  let ?S = "\<lambda>k. {v \<in> snd ` set (take k ?ms). fetchable v}"
  from Suc.hyps(2) Suc.prems have lt: "i < length ?ms" by simp
  obtain a u where au: "?ms ! i = (a, u)" by (cases "?ms ! i")
  have dr: "drop i ?ms = (a, u) # drop (Suc i) ?ms"
    using lt au by (simp add: Cons_nth_drop_Suc[symmetric])
  have tk: "take (Suc i) ?ms = take i ?ms @ [(a, u)]"
    using lt au by (simp add: take_Suc_conv_app_nth)
  have up: "[i..<length ?ms] = i # [Suc i..<length ?ms]"
    using lt by (simp add: upt_conv_Cons)
  have n: "n = length ?ms - Suc i" and le: "Suc i \<le> length ?ms"
    using Suc.hyps(2) lt by simp_all
  note IH = Suc.hyps(1)[OF n le]
  show ?case
  proof (cases "fetchable u")
    case False
    then have S: "?S (Suc i) = ?S i" by (auto simp: tk)
    have fo: "\<not> first_occurrence ?ms i"
      using False au by (simp add: first_occurrence_def)
    have skip: "HasPrefix u ''./'' \<or> HasPrefix u ''../'' \<or>
        (\<not> HasPrefix u ''/uploads/'' \<and> \<not> HasPrefix u ''http://'' \<and> \<not> HasPrefix u ''https://'')"
      using False by (auto simp: fetchable_def)
    have "extractImages_loop i (drop i ?ms) (render (mark_urls (\<lambda>v. v \<in> ?S i) (token_of d) d))
            infos (?S i) =
          extractImages_loop (Suc i) (drop (Suc i) ?ms)
            (render (mark_urls (\<lambda>v. v \<in> ?S i) (token_of d) d)) infos (?S i)"
      unfolding dr using skip by auto
    also have "\<dots> = (render (marked d),
        infos @ map (reference_at ?ms) (filter (first_occurrence ?ms) [Suc i..<length ?ms]))"
      using IH[of infos] by (simp only: S)
    finally show ?thesis using fo by (simp only: up filter.simps if_False)
  next
    case True
    note rel = fetchable_not_relative[OF True]
    have kind: "HasPrefix u ''/uploads/'' \<or> HasPrefix u ''http://'' \<or> HasPrefix u ''https://''"
      using True by (simp add: fetchable_def)
    show ?thesis
    proof (cases "u \<in> ?S i")
      case seen: True
      then have S: "?S (Suc i) = ?S i" by (auto simp: tk)
      from seen have "u \<in> snd ` set (take i ?ms)" by simp
      then have "first_index u ?ms < i" by (rule first_index_before)
      then have fo: "\<not> first_occurrence ?ms i"
        using au by (simp add: first_occurrence_def)
      have "extractImages_loop i (drop i ?ms) (render (mark_urls (\<lambda>v. v \<in> ?S i) (token_of d) d))
              infos (?S i) =
            extractImages_loop (Suc i) (drop (Suc i) ?ms)
              (render (mark_urls (\<lambda>v. v \<in> ?S i) (token_of d) d)) infos (?S i)"
        unfolding dr using rel kind seen by auto
      also have "\<dots> = (render (marked d),
          infos @ map (reference_at ?ms) (filter (first_occurrence ?ms) [Suc i..<length ?ms]))"
        using IH[of infos] by (simp only: S)
      finally show ?thesis using fo by (simp only: up filter.simps if_False)
    next
      case new: False
      with True have nb: "u \<notin> snd ` set (take i ?ms)" by simp
      have fi: "first_index u ?ms = i"
        using lt au nb by (intro first_index_here) simp_all
      then have fo: "first_occurrence ?ms i"
        using True au by (simp add: first_occurrence_def)
      have tok: "token_of d u = placeholder i"
        using fi by (simp add: token_of_def)
      have S: "?S (Suc i) = insert u (?S i)"
        using True by (auto simp: tk)
      have "(a, u) \<in> set ?ms"
        using lt au by (metis nth_mem)
      then have cu: "CHR '')'' \<notin> set u"
        using images_well_formed[OF wf] by blast
      have wfm: "well_formed (mark_urls (\<lambda>v. v \<in> ?S i) (token_of d) d)"
        using wf by (intro well_formed_mark) (simp_all add: token_of_def placeholder_neutral)
      have repl: "ReplaceAllString u (render (mark_urls (\<lambda>v. v \<in> ?S i) (token_of d) d)) (placeholder i) =
            render (mark_urls (\<lambda>v. v \<in> insert u (?S i)) (token_of d) d)"
        using ReplaceAllString_render[OF cu wfm, of "placeholder i"]
          mark_urls_step[where tok = "token_of d" and u = u and ph = "placeholder i"
            and S = "?S i" and d = d, OF tok]
        by simp
      have ref: "reference_at ?ms i =
          \<lparr>Alt = a, OriginalURL = u,
            Type = (if HasPrefix u ''/uploads/'' then ''local'' else ''remote''),
            Placeholder = placeholder i\<rparr>"
        using au by (simp add: reference_at_def)
      have "extractImages_loop i (drop i ?ms) (render (mark_urls (\<lambda>v. v \<in> ?S i) (token_of d) d))
              infos (?S i) =
            extractImages_loop (Suc i) (drop (Suc i) ?ms)
              (render (mark_urls (\<lambda>v. v \<in> insert u (?S i)) (token_of d) d))
              (infos @ [reference_at ?ms i]) (insert u (?S i))"
        unfolding dr using rel kind new repl ref by auto
      also have "\<dots> = (render (marked d),
          (infos @ [reference_at ?ms i]) @
            map (reference_at ?ms) (filter (first_occurrence ?ms) [Suc i..<length ?ms]))"
        using IH[of "infos @ [reference_at ?ms i]"] by (simp only: S)
      finally show ?thesis using fo by (simp only: up filter.simps if_True list.map append_assoc append.simps)
    qed
  qed
qed

lemma extractImages_render:
  assumes "well_formed d"
  shows "extractImages (render d) = (render (marked d), references d)"
proof -
  have "extractImages_loop 0 (drop 0 (images d))
      (render (mark_urls (\<lambda>v. v \<in> {v \<in> snd ` set (take 0 (images d)). fetchable v}) (token_of d) d))
      [] {v \<in> snd ` set (take 0 (images d)). fetchable v} =
    (render (marked d),
     [] @ map (reference_at (images d))
               (filter (first_occurrence (images d)) [0..<length (images d)]))"
    by (rule extractImages_loop_render[OF assms]) simp
  then show ?thesis
    by (simp add: extractImages_def FindAll_render[OF assms] mark_urls_none references_def)
qed

lemma references_distinct_urls: "distinct (map OriginalURL (references d))"
proof -
  have "inj_on (\<lambda>i. OriginalURL (reference_at (images d) i))
          (set (filter (first_occurrence (images d)) [0..<length (images d)]))"
  proof (rule inj_onI)
    fix i j
    assume "i \<in> set (filter (first_occurrence (images d)) [0..<length (images d)])"
      and "j \<in> set (filter (first_occurrence (images d)) [0..<length (images d)])"
      and eq: "OriginalURL (reference_at (images d) i) = OriginalURL (reference_at (images d) j)"
    then have fi: "first_index (snd (images d ! i)) (images d) = i"
      and fj: "first_index (snd (images d ! j)) (images d) = j"
      by (simp_all add: first_occurrence_def)
    from eq have "snd (images d ! i) = snd (images d ! j)"
      by (simp add: reference_at_def)
    with fi fj show "i = j" by metis
  qed
  then show ?thesis
    by (simp add: references_def distinct_map comp_def)
qed

lemma references_distinct_tokens: "distinct (map Placeholder (references d))"
proof -
  have "inj_on (\<lambda>i. Placeholder (reference_at (images d) i))
          (set (filter (first_occurrence (images d)) [0..<length (images d)]))"
  proof (rule inj_onI)
    fix i j
    assume "Placeholder (reference_at (images d) i) = Placeholder (reference_at (images d) j)"
    then have "placeholder i = placeholder j"
      by (simp add: reference_at_def)
    then show "i = j" by (rule placeholder_inj)
  qed
  then show ?thesis
    by (simp add: references_def distinct_map comp_def)
qed

lemma references_cover:
  assumes "Img alt url \<in> set d" and "fetchable url"
  shows "\<exists>r \<in> set (references d). OriginalURL r = url \<and> Placeholder r = token_of d url"
proof -
  let ?ms = "images d"
  let ?i = "first_index url ?ms"
  from assms(1) have "(alt, url) \<in> set ?ms" by (simp add: images_set)
  then have "url \<in> snd ` set ?ms" by force
  then have i: "?i < length ?ms" "snd (?ms ! ?i) = url"
    using first_index_found by blast+
  then have "first_occurrence ?ms ?i"
    using assms(2) by (simp add: first_occurrence_def)
  with i(1) have "reference_at ?ms ?i \<in> set (references d)"
    by (simp add: references_def)
  moreover have "OriginalURL (reference_at ?ms ?i) = url"
    using i(2) by (simp add: reference_at_def)
  moreover have "Placeholder (reference_at ?ms ?i) = token_of d url"
    by (simp add: reference_at_def token_of_def)
  ultimately show ?thesis by blast
qed

text \<open>
  Claim C5 as stated fails in two ways. The token is not kept apart from the document's own
  text: a body that already contains \<^verbatim>\<open>__IMG_PLACEHOLDER_0__\<close> comes back with two
  occurrences of the token of its only reference. And not every occurrence is rewritten
  to the token of its reference: when a target contains image-link syntax that names an
  earlier target, the earlier replacement destroys the occurrence, and the reference with
  token 1 has no occurrence in the marked body.
\<close>

theorem extractImages_token_collides:
  "extractImages ''__IMG_PLACEHOLDER_0__ ![a](http://x/1.png)'' =
     (''__IMG_PLACEHOLDER_0__ __IMG_PLACEHOLDER_0__'',
      [\<lparr>Alt = ''a'', OriginalURL = ''http://x/1.png'', Type = ''remote'',
         Placeholder = ''__IMG_PLACEHOLDER_0__''\<rparr>]) \<and>
   extractImages ''![k](http://b) ![z](http://a/![x](http://b)'' =
     (''__IMG_PLACEHOLDER_0__ ![z](http://a/__IMG_PLACEHOLDER_0__'',
      [\<lparr>Alt = ''k'', OriginalURL = ''http://b'', Type = ''remote'',
         Placeholder = ''__IMG_PLACEHOLDER_0__''\<rparr>,
       \<lparr>Alt = ''z'', OriginalURL = ''http://a/![x](http://b'', Type = ''remote'',
         Placeholder = ''__IMG_PLACEHOLDER_1__''\<rparr>])"
proof -
  have a: "extractImages ''__IMG_PLACEHOLDER_0__ ![a](http://x/1.png)'' =
     (''__IMG_PLACEHOLDER_0__ __IMG_PLACEHOLDER_0__'',
      [\<lparr>Alt = ''a'', OriginalURL = ''http://x/1.png'', Type = ''remote'',
         Placeholder = ''__IMG_PLACEHOLDER_0__''\<rparr>])"
    by code_simp
  have b: "extractImages ''![k](http://b) ![z](http://a/![x](http://b)'' =
     (''__IMG_PLACEHOLDER_0__ ![z](http://a/__IMG_PLACEHOLDER_0__'',
      [\<lparr>Alt = ''k'', OriginalURL = ''http://b'', Type = ''remote'',
         Placeholder = ''__IMG_PLACEHOLDER_0__''\<rparr>,
       \<lparr>Alt = ''z'', OriginalURL = ''http://a/![x](http://b'', Type = ''remote'',
         Placeholder = ''__IMG_PLACEHOLDER_1__''\<rparr>])"
    by code_simp
  show ?thesis using a b by (rule conjI)
qed

text \<open>
  Claim C5, amended. For a body that is a well-formed sequence of texts and image links,
  the scanner returns the body in which every link whose target starts with
  \<^verbatim>\<open>/uploads/\<close>, \<^verbatim>\<open>http://\<close> or \<^verbatim>\<open>https://\<close> is replaced by the token of that
  target, the token \<^verbatim>\<open>__IMG_PLACEHOLDER_<i>__\<close> with \<open>i\<close> the index of the target's first
  occurrence among the image links of the body, and every other link is left as it is;
  and it returns one reference for each such target, at its first occurrence. The
  references have distinct URLs and distinct tokens, and every extracted target has its
  reference, which carries the token that replaced all its occurrences.
\<close>

theorem extractImages_well_formed:
  assumes "well_formed d"
  shows "extractImages (render d) = (render (marked d), references d) \<and>
         distinct (map OriginalURL (references d)) \<and>
         distinct (map Placeholder (references d)) \<and>
         (\<forall>alt url. Img alt url \<in> set d \<longrightarrow> fetchable url \<longrightarrow>
            (\<exists>r \<in> set (references d). OriginalURL r = url \<and> Placeholder r = token_of d url))"
  using extractImages_render[OF assms] references_distinct_urls references_distinct_tokens
    references_cover by blast

lemma doc_example_facts:
  "well_formed doc_example"
  "render doc_example =
     ''Intro! ![a](https://x.example/1.png) and ![rel](./local.png)![b](https://x.example/1.png)''"
  "render (marked doc_example) =
     ''Intro! __IMG_PLACEHOLDER_0__ and ![rel](./local.png)__IMG_PLACEHOLDER_0__''"
  "references doc_example =
     [\<lparr>Alt = ''a'', OriginalURL = ''https://x.example/1.png'', Type = ''remote'',
        Placeholder = ''__IMG_PLACEHOLDER_0__''\<rparr>]"
  by code_simp+

theorem extractImages_well_formed_witness:
  "well_formed doc_example \<and>
   extractImages
     ''Intro! ![a](https://x.example/1.png) and ![rel](./local.png)![b](https://x.example/1.png)'' =
     (''Intro! __IMG_PLACEHOLDER_0__ and ![rel](./local.png)__IMG_PLACEHOLDER_0__'',
      [\<lparr>Alt = ''a'', OriginalURL = ''https://x.example/1.png'', Type = ''remote'',
         Placeholder = ''__IMG_PLACEHOLDER_0__''\<rparr>]) \<and>
   distinct (map OriginalURL (references doc_example)) \<and>
   distinct (map Placeholder (references doc_example))"
  using extractImages_well_formed[OF doc_example_facts(1)] doc_example_facts(1)
  by (simp add: doc_example_facts(2,3,4))

subsection \<open>Literal replacement in a well-formed document\<close>













subsection \<open>A second run of the normaliser\<close>






end
